theory Spec2Isabelle
  imports Main
begin

section \<open>Texts, errors and fields\<close>

text \<open>
  A Python \<^verbatim>\<open>str\<close> is a sequence of code points. The model covers the texts whose
  code points lie below 256: a \<^typ>\<open>char\<close> stands for the code point \<open>of_char c\<close>, so
  \<^const>\<open>length\<close> counts what \<^verbatim>\<open>len\<close> counts.

  The exceptions the program raises are values. \<^verbatim>\<open>ValueError\<close> is what the
  specification calls a validation error, \<^verbatim>\<open>KeyError\<close> its not-found error;
  \<^verbatim>\<open>OverflowError\<close> is what date arithmetic raises beyond the last day of year 9999.
\<close>

datatype error = ValueError string | KeyError string | OverflowError string

text \<open>
  \<^verbatim>\<open>str.isdigit\<close>: true when the text is not empty and every character has the
  Unicode property Numeric_Type=Digit or Decimal. Below code point 256 these are the
  ten ASCII digits (48..57) and the superscripts two, three and one (178, 179, 185).
\<close>

definition isdigit_char :: "char \<Rightarrow> bool" where
  "isdigit_char c =
     (let n = (of_char c :: nat)
      in (48 \<le> n \<and> n \<le> 57) \<or> n = 178 \<or> n = 179 \<or> n = 185)"

definition isdigit :: "string \<Rightarrow> bool" where
  "isdigit s = (s \<noteq> [] \<and> list_all isdigit_char s)"

text \<open>The decimal digits \<^verbatim>\<open>0\<close> .. \<^verbatim>\<open>9\<close>, the class \<^verbatim>\<open>\d\<close> below code point 256.\<close>

definition is_decimal :: "char \<Rightarrow> bool" where
  "is_decimal c = (let n = (of_char c :: nat) in 48 \<le> n \<and> n \<le> 57)"

text \<open>
  \<^verbatim>\<open>class Phone(Field)\<close>: the constructor validates, then stores the text as
  \<^verbatim>\<open>value\<close>; \<^verbatim>\<open>str\<close> of a field is \<^verbatim>\<open>str(self.value)\<close>.
\<close>

datatype Phone = Phone_obj (phone_value: string)

definition Phone_validate :: "string \<Rightarrow> error + unit" where
  "Phone_validate number =
     (if \<not> isdigit number \<or> length number \<noteq> 10
      then Inl (ValueError ''Wrong format! Phone number must be 10 digits long.'')
      else Inr ())"

definition Phone :: "string \<Rightarrow> error + Phone" where
  "Phone number =
     (case Phone_validate number of
        Inl e \<Rightarrow> Inl e
      | Inr _ \<Rightarrow> Inr (Phone_obj number))"

definition Phone_str :: "Phone \<Rightarrow> string" where
  "Phone_str p = phone_value p"

section \<open>Calendar dates\<close>

text \<open>
  \<^verbatim>\<open>datetime.date\<close>: a year in 1..9999, a month and a day of the proleptic Gregorian
  calendar. The arithmetic below is the one of the \<^verbatim>\<open>datetime\<close> module:
  \<^verbatim>\<open>_is_leap\<close>, \<^verbatim>\<open>_days_before_year\<close>, \<^verbatim>\<open>_days_in_month\<close>,
  \<^verbatim>\<open>_days_before_month\<close>, \<^verbatim>\<open>_ymd2ord\<close> and \<^verbatim>\<open>_ord2ymd\<close>.
\<close>

record date =
  year :: int
  month :: int
  day :: int

definition MINYEAR :: int where "MINYEAR = 1"
definition MAXYEAR :: int where "MAXYEAR = 9999"
definition MAXORDINAL :: int where "MAXORDINAL = 3652059"

definition is_leap :: "int \<Rightarrow> bool" where
  "is_leap y = (y mod 4 = 0 \<and> (y mod 100 \<noteq> 0 \<or> y mod 400 = 0))"

definition DAYS_IN_MONTH :: "int \<Rightarrow> int" where
  "DAYS_IN_MONTH m =
     (if m = 1 then 31 else if m = 2 then 28 else if m = 3 then 31
      else if m = 4 then 30 else if m = 5 then 31 else if m = 6 then 30
      else if m = 7 then 31 else if m = 8 then 31 else if m = 9 then 30
      else if m = 10 then 31 else if m = 11 then 30 else if m = 12 then 31
      else - 1)"

definition DAYS_BEFORE_MONTH :: "int \<Rightarrow> int" where
  "DAYS_BEFORE_MONTH m =
     (if m = 1 then 0 else if m = 2 then 31 else if m = 3 then 59
      else if m = 4 then 90 else if m = 5 then 120 else if m = 6 then 151
      else if m = 7 then 181 else if m = 8 then 212 else if m = 9 then 243
      else if m = 10 then 273 else if m = 11 then 304 else if m = 12 then 334
      else - 1)"

definition days_before_year :: "int \<Rightarrow> int" where
  "days_before_year y =
     (let y1 = y - 1 in y1 * 365 + y1 div 4 - y1 div 100 + y1 div 400)"

definition days_in_month :: "int \<Rightarrow> int \<Rightarrow> int" where
  "days_in_month y m = (if m = 2 \<and> is_leap y then 29 else DAYS_IN_MONTH m)"

definition days_before_month :: "int \<Rightarrow> int \<Rightarrow> int" where
  "days_before_month y m =
     DAYS_BEFORE_MONTH m + (if m > 2 \<and> is_leap y then 1 else 0)"

definition ymd2ord :: "int \<Rightarrow> int \<Rightarrow> int \<Rightarrow> int" where
  "ymd2ord y m d = days_before_year y + days_before_month y m + d"

definition toordinal :: "date \<Rightarrow> int" where
  "toordinal d = ymd2ord (year d) (month d) (day d)"

text \<open>\<^verbatim>\<open>date.weekday()\<close>: Monday is 0, Saturday 5, Sunday 6.\<close>

definition weekday :: "date \<Rightarrow> int" where
  "weekday d = (toordinal d + 6) mod 7"

text \<open>
  The constructor \<^verbatim>\<open>date(year, month, day)\<close> checks its fields and raises
  \<^verbatim>\<open>ValueError\<close>. The wording of the three messages differs between versions of
  the interpreter; nothing below depends on it.
\<close>

definition valid_date :: "date \<Rightarrow> bool" where
  "valid_date d =
     (MINYEAR \<le> year d \<and> year d \<le> MAXYEAR \<and> 1 \<le> month d \<and> month d \<le> 12 \<and>
      1 \<le> day d \<and> day d \<le> days_in_month (year d) (month d))"

definition date_new :: "int \<Rightarrow> int \<Rightarrow> int \<Rightarrow> error + date" where
  "date_new y m d =
     (if \<not> (MINYEAR \<le> y \<and> y \<le> MAXYEAR) then Inl (ValueError ''year is out of range'')
      else if \<not> (1 \<le> m \<and> m \<le> 12) then Inl (ValueError ''month must be in 1..12'')
      else if \<not> (1 \<le> d \<and> d \<le> days_in_month y m)
        then Inl (ValueError ''day is out of range for month'')
      else Inr \<lparr>year = y, month = m, day = d\<rparr>)"

text \<open>\<^verbatim>\<open>d.replace(year=y)\<close> builds a new date from the new year and the old month and day.\<close>

definition replace_year :: "date \<Rightarrow> int \<Rightarrow> error + date" where
  "replace_year d y = date_new y (month d) (day d)"

text \<open>Dates compare as the tuples (year, month, day).\<close>

definition date_less :: "date \<Rightarrow> date \<Rightarrow> bool" where
  "date_less a b =
     (year a < year b \<or>
      (year a = year b \<and> (month a < month b \<or> (month a = month b \<and> day a < day b))))"

text \<open>\<^verbatim>\<open>(a - b).days\<close>: the difference of the ordinals.\<close>

definition days_between :: "date \<Rightarrow> date \<Rightarrow> int" where
  "days_between a b = toordinal a - toordinal b"

text \<open>
  \<^verbatim>\<open>_ord2ymd\<close>, the inverse of \<^verbatim>\<open>_ymd2ord\<close>, with its constants
  \<^verbatim>\<open>_DI400Y\<close> = 146097, \<^verbatim>\<open>_DI100Y\<close> = 36524 and \<^verbatim>\<open>_DI4Y\<close> = 1461. It is
  written in two parts: \<open>ord2md\<close> is the end of the function, which finds the month
  and the day from the number \<open>n\<close> of days before the date in its year (the month is
  estimated as \<^verbatim>\<open>(n + 50) >> 5\<close> and corrected when the estimate is too large).
\<close>

definition ord2md :: "int \<Rightarrow> bool \<Rightarrow> int \<times> int" where
  "ord2md n leapyear =
     (let m = (n + 50) div 32;
          preceding = DAYS_BEFORE_MONTH m + (if m > 2 \<and> leapyear then 1 else 0)
      in if preceding > n
         then let m = m - 1;
                  preceding = preceding -
                    (DAYS_IN_MONTH m + (if m = 2 \<and> leapyear then 1 else 0))
              in (m, n - preceding + 1)
         else (m, n - preceding + 1))"

definition ord2ymd :: "int \<Rightarrow> date" where
  "ord2ymd n0 =
     (let n = n0 - 1;
          n400 = n div 146097; n = n mod 146097;
          y = n400 * 400 + 1;
          n100 = n div 36524; n = n mod 36524;
          n4 = n div 1461; n = n mod 1461;
          n1 = n div 365; n = n mod 365;
          y = y + n100 * 100 + n4 * 4 + n1
      in if n1 = 4 \<or> n100 = 4 then \<lparr>year = y - 1, month = 12, day = 31\<rparr>
         else
           let leapyear = (n1 = 3 \<and> (n4 \<noteq> 24 \<or> n100 = 3));
               (m, d) = ord2md n leapyear
           in \<lparr>year = y, month = m, day = d\<rparr>)"

text \<open>\<^verbatim>\<open>d + timedelta(days=k)\<close>; a result outside 1..MAXORDINAL raises \<^verbatim>\<open>OverflowError\<close>.\<close>

definition date_add :: "date \<Rightarrow> int \<Rightarrow> error + date" where
  "date_add d k =
     (let o1 = toordinal d + k
      in if 0 < o1 \<and> o1 \<le> MAXORDINAL then Inr (ord2ymd o1)
         else Inl (OverflowError ''date value out of range''))"

text \<open>
  \<^verbatim>\<open>d.strftime("%d.%m.%Y")\<close>: day and month in two digits, the year in four (for
  a year below 1000 the width of \<^verbatim>\<open>%Y\<close> is the platform's; the model pads).
\<close>

definition digit_char :: "nat \<Rightarrow> char" where
  "digit_char n = char_of (48 + n)"

definition pad2 :: "int \<Rightarrow> string" where
  "pad2 i = (let n = nat i in [digit_char (n div 10 mod 10), digit_char (n mod 10)])"

definition pad4 :: "int \<Rightarrow> string" where
  "pad4 i =
     (let n = nat i
      in [digit_char (n div 1000 mod 10), digit_char (n div 100 mod 10),
          digit_char (n div 10 mod 10), digit_char (n mod 10)])"

definition strftime :: "date \<Rightarrow> string" where
  "strftime d = pad2 (day d) @ ''.'' @ pad2 (month d) @ ''.'' @ pad4 (year d)"

section \<open>Parsing a date: \<^verbatim>\<open>strptime(value, "%d.%m.%Y")\<close>\<close>

text \<open>
  \<^verbatim>\<open>datetime.strptime\<close> turns the format into a regular expression and matches it
  at the start of the text (\<^verbatim>\<open>re.match\<close>, so with backtracking). The directives are
  \<^item> \<^verbatim>\<open>%d\<close>: \<^verbatim>\<open>3[0-1]|[1-2]\d|0[1-9]|[1-9]| [1-9]\<close>,
  \<^item> \<^verbatim>\<open>%m\<close>: \<^verbatim>\<open>1[0-2]|0[1-9]|[1-9]\<close>,
  \<^item> \<^verbatim>\<open>%Y\<close>: \<^verbatim>\<open>\d\d\d\d\<close>,
  and the dots of the format match themselves. Each function below returns the ways
  its piece matches a prefix of the text, as (matched text, rest), in the order in
  which the matcher tries them.
\<close>

definition in_range :: "char \<Rightarrow> char \<Rightarrow> char \<Rightarrow> bool" where
  "in_range lo hi c = ((of_char lo :: nat) \<le> of_char c \<and> (of_char c :: nat) \<le> of_char hi)"

definition re_d :: "string \<Rightarrow> (string \<times> string) list" where
  "re_d s =
     (case s of
        c1 # c2 # r \<Rightarrow>
          (if c1 = CHR ''3'' \<and> in_range CHR ''0'' CHR ''1'' c2 then [([c1, c2], r)] else []) @
          (if in_range CHR ''1'' CHR ''2'' c1 \<and> is_decimal c2 then [([c1, c2], r)] else []) @
          (if c1 = CHR ''0'' \<and> in_range CHR ''1'' CHR ''9'' c2 then [([c1, c2], r)] else [])
      | _ \<Rightarrow> []) @
     (case s of
        c1 # r \<Rightarrow> (if in_range CHR ''1'' CHR ''9'' c1 then [([c1], r)] else [])
      | _ \<Rightarrow> []) @
     (case s of
        c1 # c2 # r \<Rightarrow>
          (if c1 = CHR '' '' \<and> in_range CHR ''1'' CHR ''9'' c2 then [([c1, c2], r)] else [])
      | _ \<Rightarrow> [])"

definition re_m :: "string \<Rightarrow> (string \<times> string) list" where
  "re_m s =
     (case s of
        c1 # c2 # r \<Rightarrow>
          (if c1 = CHR ''1'' \<and> in_range CHR ''0'' CHR ''2'' c2 then [([c1, c2], r)] else []) @
          (if c1 = CHR ''0'' \<and> in_range CHR ''1'' CHR ''9'' c2 then [([c1, c2], r)] else [])
      | _ \<Rightarrow> []) @
     (case s of
        c1 # r \<Rightarrow> (if in_range CHR ''1'' CHR ''9'' c1 then [([c1], r)] else [])
      | _ \<Rightarrow> [])"

definition re_Y :: "string \<Rightarrow> (string \<times> string) list" where
  "re_Y s =
     (case s of
        c1 # c2 # c3 # c4 # r \<Rightarrow>
          (if is_decimal c1 \<and> is_decimal c2 \<and> is_decimal c3 \<and> is_decimal c4
           then [([c1, c2, c3, c4], r)] else [])
      | _ \<Rightarrow> [])"

definition re_dot :: "string \<Rightarrow> string list" where
  "re_dot s = (case s of c # r \<Rightarrow> (if c = CHR ''.'' then [r] else []) | _ \<Rightarrow> [])"

text \<open>All matches of the whole expression, in the matcher's order; it takes the first.\<close>

definition re_matches :: "string \<Rightarrow> ((string \<times> string \<times> string) \<times> string) list" where
  "re_matches s =
     concat (map (\<lambda>(d, r1).
       concat (map (\<lambda>r2.
         concat (map (\<lambda>(m, r3).
           concat (map (\<lambda>r4.
             map (\<lambda>(y, r5). ((d, m, y), r5)) (re_Y r4))
           (re_dot r3)))
         (re_m r2)))
       (re_dot r1)))
     (re_d s))"

text \<open>\<^verbatim>\<open>int(text)\<close> on a matched group: blanks around the digits are dropped.\<close>

definition digit_val :: "char \<Rightarrow> int" where
  "digit_val c = int (of_char c) - 48"

definition py_int :: "string \<Rightarrow> int" where
  "py_int s = foldl (\<lambda>a c. 10 * a + digit_val c) 0 (filter (\<lambda>c. c \<noteq> CHR '' '') s)"

text \<open>
  \<^verbatim>\<open>strptime\<close> raises \<^verbatim>\<open>ValueError\<close> when nothing matches, when text remains after
  the match, and when the numbers are not a date (it builds
  \<^verbatim>\<open>datetime_date(year, month, day)\<close>). Its first two messages quote the text; the
  model leaves the quotation out, \<^verbatim>\<open>Birthday.validate\<close> replaces the message anyway.
\<close>

definition strptime :: "string \<Rightarrow> error + date" where
  "strptime s =
     (case re_matches s of
        [] \<Rightarrow> Inl (ValueError ''time data does not match format'')
      | ((d, m, y), rest) # _ \<Rightarrow>
          if rest \<noteq> [] then Inl (ValueError ''unconverted data remains'')
          else date_new (py_int y) (py_int m) (py_int d))"

text \<open>
  \<^verbatim>\<open>class Birthday(Field)\<close>: \<^verbatim>\<open>validate\<close> parses and discards the result, turning
  any \<^verbatim>\<open>ValueError\<close> into its own; the constructor then parses again for
  \<^verbatim>\<open>self.date\<close> and stores the text as \<^verbatim>\<open>value\<close>.
\<close>

datatype Birthday = Birthday_obj (birthday_value: string) (birthday_date: date)

definition Birthday_validate :: "string \<Rightarrow> error + unit" where
  "Birthday_validate v =
     (case strptime v of
        Inl (ValueError _) \<Rightarrow> Inl (ValueError ''Invalid date format. Use DD.MM.YYYY'')
      | Inl e \<Rightarrow> Inl e
      | Inr _ \<Rightarrow> Inr ())"

definition Birthday :: "string \<Rightarrow> error + Birthday" where
  "Birthday v =
     (case Birthday_validate v of
        Inl e \<Rightarrow> Inl e
      | Inr _ \<Rightarrow>
          (case strptime v of
             Inl e \<Rightarrow> Inl e
           | Inr d \<Rightarrow> Inr (Birthday_obj v d)))"

section \<open>Contact records\<close>

text \<open>
  \<^verbatim>\<open>class Record\<close>. \<^verbatim>\<open>Name\<close> is a field without validation, so the name is its
  text. A method that can raise returns the outcome together with the record as the
  call leaves it, so that what an exception leaves behind is part of the model.
\<close>

record Record =
  name :: string
  phones :: "Phone list"
  birthday :: "Birthday option"

definition Record_init :: "string \<Rightarrow> Record" where
  "Record_init n = \<lparr>name = n, phones = [], birthday = None\<rparr>"

definition add_phone :: "Record \<Rightarrow> string \<Rightarrow> (error + unit) \<times> Record" where
  "add_phone r phone =
     (case Phone phone of
        Inl e \<Rightarrow> (Inl e, r)
      | Inr p \<Rightarrow> (Inr (), r\<lparr>phones := phones r @ [p]\<rparr>))"

definition remove_phone :: "Record \<Rightarrow> string \<Rightarrow> Record" where
  "remove_phone r removed_phone =
     r\<lparr>phones := filter (\<lambda>phone. phone_value phone \<noteq> removed_phone) (phones r)\<rparr>"

text \<open>
  The loop of \<^verbatim>\<open>edit_phone\<close> over \<^verbatim>\<open>enumerate(self.phones)\<close>: \<open>ps\<close> is the whole
  list, \<open>i\<close> the index of the head of what is left to visit.
\<close>

fun edit_phone_loop ::
  "Phone list \<Rightarrow> nat \<Rightarrow> Phone list \<Rightarrow> string \<Rightarrow> string \<Rightarrow> (error + unit) \<times> Phone list" where
  "edit_phone_loop ps i [] old_phone new_phone =
     (Inl (ValueError ''Phone number not found.''), ps)"
| "edit_phone_loop ps i (phone # rest) old_phone new_phone =
     (if phone_value phone = old_phone
      then (case Phone new_phone of
              Inl e \<Rightarrow> (Inl e, ps)
            | Inr p \<Rightarrow> (Inr (), ps[i := p]))
      else edit_phone_loop ps (Suc i) rest old_phone new_phone)"

definition edit_phone :: "Record \<Rightarrow> string \<Rightarrow> string \<Rightarrow> (error + unit) \<times> Record" where
  "edit_phone r old_phone new_phone =
     (case edit_phone_loop (phones r) 0 (phones r) old_phone new_phone of
        (res, ps) \<Rightarrow> (res, r\<lparr>phones := ps\<rparr>))"

fun find_phone_loop :: "Phone list \<Rightarrow> string \<Rightarrow> Phone option" where
  "find_phone_loop [] this_phone = None"
| "find_phone_loop (phone # rest) this_phone =
     (if phone_value phone = this_phone then Some phone
      else find_phone_loop rest this_phone)"

definition find_phone :: "Record \<Rightarrow> string \<Rightarrow> Phone option" where
  "find_phone r this_phone = find_phone_loop (phones r) this_phone"

definition add_birthday :: "Record \<Rightarrow> string \<Rightarrow> (error + unit) \<times> Record" where
  "add_birthday r v =
     (case Birthday v of
        Inl e \<Rightarrow> (Inl e, r)
      | Inr b \<Rightarrow> (Inr (), r\<lparr>birthday := Some b\<rparr>))"

section \<open>The address book\<close>

text \<open>
  \<^verbatim>\<open>class AddressBook(UserDict)\<close>: \<^verbatim>\<open>self.data\<close> is a dictionary, which keeps its
  keys in the order of their first insertion. It is modelled by the list of its
  items; \<open>dict_setitem\<close>, \<open>dict_get\<close>, \<open>dict_contains\<close> and \<open>dict_delitem\<close> are
  \<^verbatim>\<open>d[k] = v\<close>, \<^verbatim>\<open>d.get(k)\<close>, \<^verbatim>\<open>k in d\<close> and \<^verbatim>\<open>del d[k]\<close>.
\<close>

type_synonym AddressBook = "(string \<times> Record) list"

fun dict_setitem :: "'k \<Rightarrow> 'v \<Rightarrow> ('k \<times> 'v) list \<Rightarrow> ('k \<times> 'v) list" where
  "dict_setitem k v [] = [(k, v)]"
| "dict_setitem k v ((k', v') # kvs) =
     (if k' = k then (k, v) # kvs else (k', v') # dict_setitem k v kvs)"

fun dict_get :: "('k \<times> 'v) list \<Rightarrow> 'k \<Rightarrow> 'v option" where
  "dict_get [] k = None"
| "dict_get ((k', v') # kvs) k = (if k' = k then Some v' else dict_get kvs k)"

definition dict_contains :: "('k \<times> 'v) list \<Rightarrow> 'k \<Rightarrow> bool" where
  "dict_contains kvs k = (k \<in> set (map fst kvs))"

fun dict_delitem :: "'k \<Rightarrow> ('k \<times> 'v) list \<Rightarrow> ('k \<times> 'v) list" where
  "dict_delitem k [] = []"
| "dict_delitem k ((k', v') # kvs) =
     (if k' = k then kvs else (k', v') # dict_delitem k kvs)"

definition dict_values :: "('k \<times> 'v) list \<Rightarrow> 'v list" where
  "dict_values kvs = map snd kvs"

definition add_record :: "AddressBook \<Rightarrow> Record \<Rightarrow> AddressBook" where
  "add_record book record = dict_setitem (name record) record book"

text \<open>\<^verbatim>\<open>find\<close>, named \<open>find_record\<close> here (\<open>find\<close> is a function on lists).\<close>

definition find_record :: "AddressBook \<Rightarrow> string \<Rightarrow> Record option" where
  "find_record book n = dict_get book n"

definition delete :: "AddressBook \<Rightarrow> string \<Rightarrow> (error + unit) \<times> AddressBook" where
  "delete book n =
     (if \<not> dict_contains book n then (Inl (KeyError ''Name not found''), book)
      else (Inr (), dict_delitem n book))"

section \<open>Upcoming birthdays\<close>

definition find_next_weekday :: "date \<Rightarrow> int \<Rightarrow> error + date" where
  "find_next_weekday start_date wd =
     (let days_ahead = wd - weekday start_date;
          days_ahead = (if days_ahead \<le> 0 then days_ahead + 7 else days_ahead)
      in date_add start_date days_ahead)"

definition adjust_for_weekend :: "date \<Rightarrow> error + date" where
  "adjust_for_weekend b =
     (if weekday b \<ge> 5 then find_next_weekday b 0 else Inr b)"

text \<open>
  Lines 101 to 103: the birthday in the year of \<open>today\<close>, or in the year after it when
  that date is before \<open>today\<close>. Each \<^verbatim>\<open>replace\<close> can raise.
\<close>

definition next_birthday :: "date \<Rightarrow> date \<Rightarrow> error + date" where
  "next_birthday today user_birthday =
     (case replace_year user_birthday (year today) of
        Inl e \<Rightarrow> Inl e
      | Inr nb \<Rightarrow>
          if date_less nb today then replace_year user_birthday (year today + 1)
          else Inr nb)"

text \<open>An item of the result: the dictionary with the keys \<^verbatim>\<open>name\<close> and \<^verbatim>\<open>congratulation_date\<close>.\<close>

record congratulation =
  c_name :: string
  congratulation_date :: string

text \<open>The loop over \<^verbatim>\<open>self.data.values()\<close>; \<open>acc\<close> is \<^verbatim>\<open>upcoming_birthdays\<close>.\<close>

fun upcoming_loop :: "date \<Rightarrow> Record list \<Rightarrow> congratulation list \<Rightarrow> error + congratulation list" where
  "upcoming_loop today [] acc = Inr acc"
| "upcoming_loop today (r # rs) acc =
     (case birthday r of
        None \<Rightarrow> upcoming_loop today rs acc
      | Some b \<Rightarrow>
          (case next_birthday today (birthday_date b) of
             Inl e \<Rightarrow> Inl e
           | Inr nb \<Rightarrow>
               if 0 \<le> days_between nb today \<and> days_between nb today \<le> 7
               then (case adjust_for_weekend nb of
                       Inl e \<Rightarrow> Inl e
                     | Inr nb' \<Rightarrow>
                         upcoming_loop today rs
                           (acc @ [\<lparr>c_name = name r, congratulation_date = strftime nb'\<rparr>]))
               else upcoming_loop today rs acc))"

text \<open>
  The method takes no date: \<^verbatim>\<open>today = datetime.today().date()\<close> reads the clock of
  the machine. The reading of the clock is the first argument of the model: a date
  and the time of the day, in microseconds.
\<close>

record datetime =
  dt_date :: date
  dt_time :: nat

definition get_upcoming_birthdays :: "datetime \<Rightarrow> AddressBook \<Rightarrow> error + congratulation list" where
  "get_upcoming_birthdays now book =
     (let today = dt_date now in upcoming_loop today (dict_values book) [])"

section \<open>The query as the specification words it\<close>

text \<open>
  The next occurrence of a birthday: its month and day in the year of \<open>today\<close>,
  rolled forward to the next year when that date is strictly earlier than \<open>today\<close>.
\<close>

definition spec_next_birthday :: "date \<Rightarrow> date \<Rightarrow> date" where
  "spec_next_birthday today bd =
     (let this_year = \<lparr>year = year today, month = month bd, day = day bd\<rparr>
      in if date_less this_year today
         then \<lparr>year = year today + 1, month = month bd, day = day bd\<rparr>
         else this_year)"

text \<open>The window: a record with a birthday whose next occurrence is 0 to 7 days away.\<close>

definition spec_in_window :: "date \<Rightarrow> Record \<Rightarrow> bool" where
  "spec_in_window today r =
     (case birthday r of
        None \<Rightarrow> False
      | Some b \<Rightarrow>
          (let nb = spec_next_birthday today (birthday_date b)
           in 0 \<le> days_between nb today \<and> days_between nb today \<le> 7))"

text \<open>
  The congratulation date: two days later on a Saturday, one day later on a Sunday,
  the date itself on a weekday.
\<close>

definition spec_congratulation_date :: "date \<Rightarrow> date" where
  "spec_congratulation_date nb =
     (if weekday nb = 5 then ord2ymd (toordinal nb + 2)
      else if weekday nb = 6 then ord2ymd (toordinal nb + 1)
      else nb)"

definition spec_entry :: "date \<Rightarrow> Record \<Rightarrow> congratulation" where
  "spec_entry today r =
     (case birthday r of
        None \<Rightarrow> \<lparr>c_name = name r, congratulation_date = []\<rparr>
      | Some b \<Rightarrow>
          \<lparr>c_name = name r,
           congratulation_date =
             strftime (spec_congratulation_date (spec_next_birthday today (birthday_date b)))\<rparr>)"

text \<open>A record on which the loop raises: the year of its birthday cannot be replaced.\<close>

definition raises :: "date \<Rightarrow> Record \<Rightarrow> bool" where
  "raises today r =
     (case birthday r of
        None \<Rightarrow> False
      | Some b \<Rightarrow>
          (case next_birthday today (birthday_date b) of Inl _ \<Rightarrow> True | Inr _ \<Rightarrow> False))"

text \<open>Every birthday of a record holds a date, as \<^verbatim>\<open>strptime\<close> returns them.\<close>

definition birthday_valid :: "Record \<Rightarrow> bool" where
  "birthday_valid r =
     (case birthday r of None \<Rightarrow> True | Some b \<Rightarrow> valid_date (birthday_date b))"

section \<open>The texts a birthday is built from\<close>







section \<open>Clients of the interface\<close>

text \<open>
  A client builds records, mutates them through their methods and stores them in a
  book; after \<^verbatim>\<open>find\<close> it holds the very object the book holds, so a method called on
  it changes the record in the book. A call that raises leaves the object as the
  method left it, and the client goes on (the command loop catches the exception).
  \<open>run\<close> is the book after a sequence of such calls, starting from the empty book.
\<close>

datatype record_op =
  AddPhone string | RemovePhone string | EditPhone string string | AddBirthday string

fun apply_record_op :: "Record \<Rightarrow> record_op \<Rightarrow> Record" where
  "apply_record_op r (AddPhone p) = snd (add_phone r p)"
| "apply_record_op r (RemovePhone p) = remove_phone r p"
| "apply_record_op r (EditPhone old_phone new_phone) = snd (edit_phone r old_phone new_phone)"
| "apply_record_op r (AddBirthday v) = snd (add_birthday r v)"

datatype book_op =
  AddRecord string "record_op list" | OnRecord string record_op | Delete string

fun apply_book_op :: "AddressBook \<Rightarrow> book_op \<Rightarrow> AddressBook" where
  "apply_book_op book (AddRecord n ops) =
     add_record book (foldl apply_record_op (Record_init n) ops)"
| "apply_book_op book (OnRecord n op) =
     (case find_record book n of
        None \<Rightarrow> book
      | Some r \<Rightarrow> dict_setitem n (apply_record_op r op) book)"
| "apply_book_op book (Delete n) = snd (delete book n)"

definition run :: "book_op list \<Rightarrow> AddressBook" where
  "run ops = foldl apply_book_op [] ops"

text \<open>The invariants of a book: one item per key, every record under its own name.\<close>

definition book_wf :: "AddressBook \<Rightarrow> bool" where
  "book_wf book = (distinct (map fst book) \<and> list_all (\<lambda>(k, r). name r = k) book)"

definition phones_valid :: "Record \<Rightarrow> bool" where
  "phones_valid r = list_all (\<lambda>p. Phone_validate (phone_value p) = Inr ()) (phones r)"

definition book_inv :: "AddressBook \<Rightarrow> bool" where
  "book_inv book =
     (book_wf book \<and> list_all (\<lambda>(k, r). phones_valid r \<and> birthday_valid r) book)"

section \<open>Phone numbers\<close>

lemma Phone_validate_iff:
  "Phone_validate s = Inr () \<longleftrightarrow> length s = 10 \<and> list_all isdigit_char s"
  by (auto simp: Phone_validate_def isdigit_def)

lemma Phone_eq:
  "Phone s = (if length s = 10 \<and> list_all isdigit_char s then Inr (Phone_obj s)
              else Inl (ValueError ''Wrong format! Phone number must be 10 digits long.''))"
  by (auto simp: Phone_def Phone_validate_def isdigit_def)

lemma Phone_Inr_value: "Phone s = Inr p \<Longrightarrow> p = Phone_obj s \<and> Phone_validate s = Inr ()"
  by (auto simp: Phone_def split: sum.splits)

lemma is_decimal_isdigit: "is_decimal c \<Longrightarrow> isdigit_char c"
  by (simp add: is_decimal_def isdigit_char_def Let_def)

lemma list_all_weaken: "list_all P xs \<Longrightarrow> (\<And>x. P x \<Longrightarrow> Q x) \<Longrightarrow> list_all Q xs"
  by (induction xs) auto

text \<open>
  Claim C5, as amended. \<^verbatim>\<open>Phone(s)\<close> succeeds exactly for the texts of ten
  characters that \<^verbatim>\<open>str.isdigit\<close> accepts, and then \<^verbatim>\<open>str\<close> of the phone is \<open>s\<close>;
  every other text is refused with the \<^verbatim>\<open>ValueError\<close> of \<^verbatim>\<open>validate\<close> and there
  is no instance. Ten decimal digits are always accepted; they are not the only
  texts that are: a digit of another script or form is accepted as well.
\<close>

theorem Phone_construction:
  "Phone s = (if length s = 10 \<and> list_all isdigit_char s then Inr (Phone_obj s)
              else Inl (ValueError ''Wrong format! Phone number must be 10 digits long.''))
   \<and> (length s = 10 \<and> list_all is_decimal s \<longrightarrow> Phone s = Inr (Phone_obj s))
   \<and> (\<forall>p. Phone s = Inr p \<longrightarrow> Phone_str p = s)"
proof (intro conjI allI impI)
  show "Phone s = (if length s = 10 \<and> list_all isdigit_char s then Inr (Phone_obj s)
              else Inl (ValueError ''Wrong format! Phone number must be 10 digits long.''))"
    by (rule Phone_eq)
next
  assume "length s = 10 \<and> list_all is_decimal s"
  then have "length s = 10" and "list_all isdigit_char s"
    using list_all_weaken [of is_decimal s isdigit_char] is_decimal_isdigit by auto
  then show "Phone s = Inr (Phone_obj s)" by (simp add: Phone_eq)
next
  fix p assume "Phone s = Inr p"
  then show "Phone_str p = s"
    by (auto simp: Phone_eq Phone_str_def split: if_splits)
qed

theorem Phone_construction_witness:
  "Phone ''1234567890'' = Inr (Phone_obj ''1234567890'')
   \<and> Phone_str (Phone_obj ''1234567890'') = ''1234567890''
   \<and> Phone ''12345'' = Inl (ValueError ''Wrong format! Phone number must be 10 digits long.'')"
  using Phone_construction [of "''1234567890''"] Phone_construction [of "''12345''"]
  by (simp add: is_decimal_def isdigit_char_def)

text \<open>
  Claim C5 as stated fails: the text of ten superscript twos (code point 178) is not
  made of decimal digits, and \<^verbatim>\<open>Phone\<close> accepts it, since \<^verbatim>\<open>isdigit\<close> holds of it.
\<close>

theorem Phone_superscript_counterexample:
  "Phone [CHR 0xB2, CHR 0xB2, CHR 0xB2, CHR 0xB2, CHR 0xB2,
          CHR 0xB2, CHR 0xB2, CHR 0xB2, CHR 0xB2, CHR 0xB2]
     = Inr (Phone_obj [CHR 0xB2, CHR 0xB2, CHR 0xB2, CHR 0xB2, CHR 0xB2,
                       CHR 0xB2, CHR 0xB2, CHR 0xB2, CHR 0xB2, CHR 0xB2])
   \<and> \<not> list_all is_decimal [CHR 0xB2, CHR 0xB2, CHR 0xB2, CHR 0xB2, CHR 0xB2,
                            CHR 0xB2, CHR 0xB2, CHR 0xB2, CHR 0xB2, CHR 0xB2]"
  by (simp add: Phone_def Phone_validate_def isdigit_def isdigit_char_def is_decimal_def)

section \<open>Editing a phone\<close>

lemma edit_phone_loop_absent:
  "\<forall>p \<in> set rest. phone_value p \<noteq> old \<Longrightarrow>
   edit_phone_loop ps i rest old new = (Inl (ValueError ''Phone number not found.''), ps)"
  by (induction rest arbitrary: i) auto

lemma edit_phone_loop_present:
  "\<exists>p \<in> set rest. phone_value p = old \<Longrightarrow>
   \<exists>k < length rest. phone_value (rest ! k) = old \<and> (\<forall>j < k. phone_value (rest ! j) \<noteq> old) \<and>
     edit_phone_loop ps i rest old new =
       (case Phone new of Inl e \<Rightarrow> (Inl e, ps) | Inr p \<Rightarrow> (Inr (), ps[i + k := p]))"
proof (induction rest arbitrary: i)
  case Nil
  then show ?case by simp
next
  case (Cons a rest)
  show ?case
  proof (cases "phone_value a = old")
    case True
    then show ?thesis by (intro exI [of _ 0]) (simp split: sum.splits)
  next
    case False
    with Cons.prems have "\<exists>p \<in> set rest. phone_value p = old" by auto
    from Cons.IH [OF this, of "Suc i"] obtain k where k: "k < length rest"
      "phone_value (rest ! k) = old" "\<forall>j < k. phone_value (rest ! j) \<noteq> old"
      "edit_phone_loop ps (Suc i) rest old new =
       (case Phone new of Inl e \<Rightarrow> (Inl e, ps) | Inr p \<Rightarrow> (Inr (), ps[Suc i + k := p]))"
      by blast
    have "\<forall>j < Suc k. phone_value ((a # rest) ! j) \<noteq> old"
      using k(3) False by (auto simp: nth_Cons split: nat.splits)
    with k False show ?thesis
      by (intro exI [of _ "Suc k"]) (simp split: sum.splits)
  qed
qed

text \<open>
  Claim C4. \<^verbatim>\<open>edit_phone(old, new)\<close>: when no phone equals \<open>old\<close> the call raises
  \<^verbatim>\<open>ValueError("Phone number not found.")\<close> and the record is as before; when \<open>old\<close>
  is there and \<open>new\<close> is refused by \<^verbatim>\<open>Phone\<close>, that error is raised and the record
  is as before; when \<open>old\<close> is there and \<open>new\<close> is accepted, the first phone equal
  to \<open>old\<close> (index \<open>k\<close>) is replaced in place by the phone of \<open>new\<close>, and the list
  has the length it had.
\<close>

theorem edit_phone_cases:
  "(old \<notin> phone_value ` set (phones r) \<longrightarrow>
      edit_phone r old new = (Inl (ValueError ''Phone number not found.''), r))
   \<and> (old \<in> phone_value ` set (phones r) \<longrightarrow>
       (\<forall>e. Phone new = Inl e \<longrightarrow> edit_phone r old new = (Inl e, r)) \<and>
       (\<forall>p. Phone new = Inr p \<longrightarrow>
          (\<exists>k < length (phones r).
             phone_value (phones r ! k) = old \<and>
             (\<forall>j < k. phone_value (phones r ! j) \<noteq> old) \<and>
             phone_value p = new \<and>
             edit_phone r old new = (Inr (), r\<lparr>phones := (phones r)[k := p]\<rparr>) \<and>
             length (phones (snd (edit_phone r old new))) = length (phones r))))"
proof (intro conjI impI allI)
  assume "old \<notin> phone_value ` set (phones r)"
  then have "\<forall>p \<in> set (phones r). phone_value p \<noteq> old" by auto
  from edit_phone_loop_absent [OF this]
  show "edit_phone r old new = (Inl (ValueError ''Phone number not found.''), r)"
    by (simp add: edit_phone_def)
next
  fix e assume "old \<in> phone_value ` set (phones r)" and e: "Phone new = Inl e"
  then have "\<exists>p \<in> set (phones r). phone_value p = old" by auto
  from edit_phone_loop_present [OF this, of "phones r" 0 new] e
  show "edit_phone r old new = (Inl e, r)"
    by (auto simp: edit_phone_def)
next
  fix p assume "old \<in> phone_value ` set (phones r)" and p: "Phone new = Inr p"
  then have "\<exists>p \<in> set (phones r). phone_value p = old" by auto
  from edit_phone_loop_present [OF this, of "phones r" 0 new] p
  obtain k where k: "k < length (phones r)" "phone_value (phones r ! k) = old"
     "\<forall>j < k. phone_value (phones r ! j) \<noteq> old"
     "edit_phone_loop (phones r) 0 (phones r) old new = (Inr (), (phones r)[k := p])"
    by auto
  have "phone_value p = new" using p by (auto simp: Phone_def split: sum.splits)
  with k show "\<exists>k < length (phones r).
             phone_value (phones r ! k) = old \<and>
             (\<forall>j < k. phone_value (phones r ! j) \<noteq> old) \<and>
             phone_value p = new \<and>
             edit_phone r old new = (Inr (), r\<lparr>phones := (phones r)[k := p]\<rparr>) \<and>
             length (phones (snd (edit_phone r old new))) = length (phones r)"
    by (intro exI [of _ k]) (simp add: edit_phone_def)
qed

theorem edit_phone_cases_witness:
  "edit_phone \<lparr>name = ''Ann'', phones = [Phone_obj ''1234567890'', Phone_obj ''1111111111'',
        Phone_obj ''1111111111''], birthday = None\<rparr> ''0000000000'' ''2222222222''
     = (Inl (ValueError ''Phone number not found.''),
        \<lparr>name = ''Ann'', phones = [Phone_obj ''1234567890'', Phone_obj ''1111111111'',
        Phone_obj ''1111111111''], birthday = None\<rparr>)
   \<and> edit_phone \<lparr>name = ''Ann'', phones = [Phone_obj ''1234567890'', Phone_obj ''1111111111'',
        Phone_obj ''1111111111''], birthday = None\<rparr> ''1111111111'' ''22''
     = (Inl (ValueError ''Wrong format! Phone number must be 10 digits long.''),
        \<lparr>name = ''Ann'', phones = [Phone_obj ''1234567890'', Phone_obj ''1111111111'',
        Phone_obj ''1111111111''], birthday = None\<rparr>)
   \<and> edit_phone \<lparr>name = ''Ann'', phones = [Phone_obj ''1234567890'', Phone_obj ''1111111111'',
        Phone_obj ''1111111111''], birthday = None\<rparr> ''1111111111'' ''2222222222''
     = (Inr (),
        \<lparr>name = ''Ann'', phones = [Phone_obj ''1234567890'', Phone_obj ''2222222222'',
        Phone_obj ''1111111111''], birthday = None\<rparr>)"
  using
    edit_phone_cases [of "''0000000000''" "\<lparr>name = ''Ann'', phones = [Phone_obj ''1234567890'',
        Phone_obj ''1111111111'', Phone_obj ''1111111111''], birthday = None\<rparr>" "''2222222222''"]
    edit_phone_cases [of "''1111111111''" "\<lparr>name = ''Ann'', phones = [Phone_obj ''1234567890'',
        Phone_obj ''1111111111'', Phone_obj ''1111111111''], birthday = None\<rparr>" "''22''"]
    edit_phone_cases [of "''1111111111''" "\<lparr>name = ''Ann'', phones = [Phone_obj ''1234567890'',
        Phone_obj ''1111111111'', Phone_obj ''1111111111''], birthday = None\<rparr>" "''2222222222''"]
  by (simp add: edit_phone_def Phone_eq isdigit_char_def)

section \<open>The dictionary of the book\<close>

lemma dict_get_setitem:
  "dict_get (dict_setitem k v kvs) k' = (if k' = k then Some v else dict_get kvs k')"
  by (induction k v kvs rule: dict_setitem.induct) auto

lemma map_fst_setitem:
  "map fst (dict_setitem k v kvs) =
     (if k \<in> set (map fst kvs) then map fst kvs else map fst kvs @ [k])"
  by (induction k v kvs rule: dict_setitem.induct) (auto simp: image_iff)

lemma set_setitem_subset: "set (dict_setitem k v kvs) \<subseteq> insert (k, v) (set kvs)"
  by (induction k v kvs rule: dict_setitem.induct) auto

lemma distinct_setitem:
  "distinct (map fst kvs) \<Longrightarrow> distinct (map fst (dict_setitem k v kvs))"
  unfolding map_fst_setitem by simp

lemma length_setitem:
  "length (dict_setitem k v kvs) =
     (if k \<in> set (map fst kvs) then length kvs else Suc (length kvs))"
proof -
  have "length (dict_setitem k v kvs) = length (map fst (dict_setitem k v kvs))" by simp
  also have "\<dots> = (if k \<in> set (map fst kvs) then length kvs else Suc (length kvs))"
    unfolding map_fst_setitem by simp
  finally show ?thesis .
qed

lemma dict_get_None_iff: "dict_get kvs k = None \<longleftrightarrow> k \<notin> set (map fst kvs)"
  by (induction kvs k rule: dict_get.induct) (auto simp: image_iff)

lemma dict_get_Some_mem: "dict_get kvs k = Some v \<Longrightarrow> (k, v) \<in> set kvs"
  by (induction kvs k rule: dict_get.induct) (auto split: if_splits)

lemma delitem_filter:
  "distinct (map fst kvs) \<Longrightarrow> dict_delitem k kvs = filter (\<lambda>kv. fst kv \<noteq> k) kvs"
proof (induction k kvs rule: dict_delitem.induct)
  case (1 k)
  then show ?case by simp
next
  case (2 k k' v' kvs)
  show ?case
  proof (cases "k' = k")
    case True
    with "2.prems" have "\<forall>kv \<in> set kvs. fst kv \<noteq> k" by auto
    then have "filter (\<lambda>kv. fst kv \<noteq> k) kvs = kvs"
      by (simp add: filter_id_conv)
    with True show ?thesis by simp
  next
    case False
    with 2 show ?thesis by simp
  qed
qed

lemma length_delitem:
  "k \<in> set (map fst kvs) \<Longrightarrow> Suc (length (dict_delitem k kvs)) = length kvs"
  by (induction k kvs rule: dict_delitem.induct) (auto simp: image_iff)

lemma dict_get_filter:
  "dict_get (filter (\<lambda>kv. fst kv \<noteq> k) kvs) k' = (if k' = k then None else dict_get kvs k')"
  by (induction kvs) auto

text \<open>
  Claim C7. \<^verbatim>\<open>delete(name)\<close> on a book without the name (the empty book too) raises
  \<^verbatim>\<open>KeyError\<close>, the not-found error, and the book is as before. On a book with the
  name it removes that item and no other, the remaining items keep their order, and
  \<^verbatim>\<open>find(name)\<close> afterwards returns \<^verbatim>\<open>None\<close>, the sentinel, while every other name
  is found as before. (\<open>distinct (map fst book)\<close>: the keys of a dictionary are
  distinct.)
\<close>

theorem delete_cases:
  "(\<not> dict_contains book n \<longrightarrow> delete book n = (Inl (KeyError ''Name not found''), book))
   \<and> delete [] n = (Inl (KeyError ''Name not found''), [])
   \<and> (dict_contains book n \<longleftrightarrow> find_record book n \<noteq> None)
   \<and> (dict_contains book n \<and> distinct (map fst book) \<longrightarrow>
        fst (delete book n) = Inr () \<and>
        snd (delete book n) = filter (\<lambda>kv. fst kv \<noteq> n) book \<and>
        Suc (length (snd (delete book n))) = length book \<and>
        distinct (map fst (snd (delete book n))) \<and>
        find_record (snd (delete book n)) n = None \<and>
        (\<forall>m. m \<noteq> n \<longrightarrow> find_record (snd (delete book n)) m = find_record book m))"
proof (intro conjI impI)
  show "delete [] n = (Inl (KeyError ''Name not found''), [])"
    by (simp add: delete_def dict_contains_def)
  show "dict_contains book n \<longleftrightarrow> find_record book n \<noteq> None"
    by (simp add: dict_contains_def find_record_def dict_get_None_iff)
next
  assume "\<not> dict_contains book n"
  then show "delete book n = (Inl (KeyError ''Name not found''), book)"
    by (simp add: delete_def)
next
  assume a: "dict_contains book n \<and> distinct (map fst book)"
  then have c: "n \<in> set (map fst book)" and d: "distinct (map fst book)"
    by (simp_all add: dict_contains_def)
  have s: "snd (delete book n) = filter (\<lambda>kv. fst kv \<noteq> n) book"
    using a by (simp add: delete_def delitem_filter)
  show "fst (delete book n) = Inr ()" using a by (simp add: delete_def)
  show "snd (delete book n) = filter (\<lambda>kv. fst kv \<noteq> n) book" by (rule s)
  show "Suc (length (snd (delete book n))) = length book"
    using a c by (simp add: delete_def length_delitem)
  show "distinct (map fst (snd (delete book n)))"
    unfolding s using d by (simp add: distinct_map_filter)
  show "find_record (snd (delete book n)) n = None"
    unfolding s by (simp add: find_record_def dict_get_filter)
  show "\<forall>m. m \<noteq> n \<longrightarrow> find_record (snd (delete book n)) m = find_record book m"
    unfolding s by (simp add: find_record_def dict_get_filter)
qed

theorem delete_cases_witness:
  "delete [(''Ann'', Record_init ''Ann''), (''Bob'', Record_init ''Bob'')] ''Unknown''
     = (Inl (KeyError ''Name not found''),
        [(''Ann'', Record_init ''Ann''), (''Bob'', Record_init ''Bob'')])
   \<and> delete (add_record [] (Record_init ''Ann'')) ''Ann'' = (Inr (), [])
   \<and> delete [(''Ann'', Record_init ''Ann''), (''Bob'', Record_init ''Bob'')] ''Ann''
     = (Inr (), [(''Bob'', Record_init ''Bob'')])
   \<and> find_record (snd (delete [(''Ann'', Record_init ''Ann''), (''Bob'', Record_init ''Bob'')] ''Ann''))
        ''Ann'' = None
   \<and> find_record (snd (delete [(''Ann'', Record_init ''Ann''), (''Bob'', Record_init ''Bob'')] ''Ann''))
        ''Bob'' = Some (Record_init ''Bob'')"
  using
    delete_cases [of "[(''Ann'', Record_init ''Ann''), (''Bob'', Record_init ''Bob'')]" "''Unknown''"]
    delete_cases [of "[(''Ann'', Record_init ''Ann''), (''Bob'', Record_init ''Bob'')]" "''Ann''"]
    delete_cases [of "add_record [] (Record_init ''Ann'')" "''Ann''"]
  by (simp add: dict_contains_def delete_def find_record_def add_record_def Record_init_def)

section \<open>Invariants of the books a client can build\<close>

lemma name_apply_record_op: "name (apply_record_op r op) = name r"
  by (cases op)
     (auto simp: add_phone_def remove_phone_def edit_phone_def add_birthday_def
           split: sum.splits prod.splits)

lemma edit_phone_loop_result:
  "edit_phone_loop ps i rest old new = (res, ps') \<Longrightarrow>
   ps' = ps \<or> (\<exists>p k. Phone new = Inr p \<and> ps' = ps[k := p])"
  by (induction rest arbitrary: i) (auto split: if_splits sum.splits)

lemma list_all_update: "list_all P xs \<Longrightarrow> P x \<Longrightarrow> list_all P (xs[k := x])"
  using set_update_subset_insert [of xs k x] by (auto simp: list_all_iff)

lemma phones_valid_init: "phones_valid (Record_init n)"
  by (simp add: phones_valid_def Record_init_def)

lemma phones_valid_add_phone: "phones_valid r \<Longrightarrow> phones_valid (snd (add_phone r s))"
  by (auto simp: phones_valid_def add_phone_def dest: Phone_Inr_value split: sum.splits)

lemma phones_valid_remove_phone: "phones_valid r \<Longrightarrow> phones_valid (remove_phone r s)"
  by (auto simp: phones_valid_def remove_phone_def list_all_iff)

lemma phones_valid_edit_phone: "phones_valid r \<Longrightarrow> phones_valid (snd (edit_phone r old new))"
proof -
  assume v: "phones_valid r"
  obtain res ps' where e: "edit_phone_loop (phones r) 0 (phones r) old new = (res, ps')"
    by (cases "edit_phone_loop (phones r) 0 (phones r) old new")
  from edit_phone_loop_result [OF e] v have "list_all (\<lambda>p. Phone_validate (phone_value p) = Inr ()) ps'"
    by (auto simp: phones_valid_def dest!: Phone_Inr_value intro!: list_all_update)
  with e show ?thesis by (simp add: edit_phone_def phones_valid_def)
qed

lemma phones_valid_add_birthday: "phones_valid r \<Longrightarrow> phones_valid (snd (add_birthday r v))"
  by (auto simp: phones_valid_def add_birthday_def split: sum.splits)

lemma phones_valid_apply_record_op: "phones_valid r \<Longrightarrow> phones_valid (apply_record_op r op)"
  by (cases op)
     (simp_all add: phones_valid_add_phone phones_valid_remove_phone phones_valid_edit_phone
        phones_valid_add_birthday)

lemma date_new_valid:
  "date_new y m d = Inr dt \<Longrightarrow> valid_date dt \<and> year dt = y \<and> month dt = m \<and> day dt = d"
  by (auto simp: date_new_def valid_date_def split: if_splits)

lemma strptime_valid: "strptime s = Inr d \<Longrightarrow> valid_date d"
  by (auto simp: strptime_def split: list.splits if_splits dest: date_new_valid)

lemma Birthday_Inr:
  "Birthday s = Inr b \<Longrightarrow>
   birthday_value b = s \<and> strptime s = Inr (birthday_date b) \<and> valid_date (birthday_date b)"
  by (auto simp: Birthday_def split: sum.splits dest: strptime_valid)

lemma birthday_valid_init: "birthday_valid (Record_init n)"
  by (simp add: birthday_valid_def Record_init_def)

lemma birthday_valid_apply_record_op: "birthday_valid r \<Longrightarrow> birthday_valid (apply_record_op r op)"
  by (cases op)
     (auto simp: birthday_valid_def add_phone_def remove_phone_def edit_phone_def
        add_birthday_def dest: Birthday_Inr split: sum.splits prod.splits)

lemma foldl_record_ops:
  "name (foldl apply_record_op r ops) = name r \<and>
   (phones_valid r \<longrightarrow> phones_valid (foldl apply_record_op r ops)) \<and>
   (birthday_valid r \<longrightarrow> birthday_valid (foldl apply_record_op r ops))"
  by (induction ops arbitrary: r)
     (auto simp: name_apply_record_op phones_valid_apply_record_op
        birthday_valid_apply_record_op)

lemma book_inv_setitem:
  assumes "book_inv book" "name r = n" "phones_valid r" "birthday_valid r"
  shows "book_inv (dict_setitem n r book)"
proof -
  have "set (dict_setitem n r book) \<subseteq> insert (n, r) (set book)" by (rule set_setitem_subset)
  with assms show ?thesis
    by (auto simp: book_inv_def book_wf_def list_all_iff distinct_setitem)
qed

lemma book_inv_delete: "book_inv book \<Longrightarrow> book_inv (snd (delete book n))"
  by (auto simp: book_inv_def book_wf_def delete_def delitem_filter list_all_iff distinct_map_filter)

lemma book_inv_apply_book_op: "book_inv book \<Longrightarrow> book_inv (apply_book_op book op)"
proof (cases op)
  case (AddRecord n ops)
  assume "book_inv book"
  moreover have "name (Record_init n) = n" by (simp add: Record_init_def)
  ultimately show ?thesis using AddRecord foldl_record_ops [of "Record_init n" ops]
    by (simp add: add_record_def book_inv_setitem phones_valid_init birthday_valid_init)
next
  case (OnRecord n rop)
  assume b: "book_inv book"
  show ?thesis
  proof (cases "find_record book n")
    case None
    with b OnRecord show ?thesis by simp
  next
    case (Some r)
    then have "(n, r) \<in> set book" by (simp add: find_record_def dict_get_Some_mem)
    with b have "name r = n" "phones_valid r" "birthday_valid r"
      by (auto simp: book_inv_def book_wf_def list_all_iff)
    with b Some OnRecord show ?thesis
      by (simp add: book_inv_setitem name_apply_record_op phones_valid_apply_record_op
            birthday_valid_apply_record_op)
  qed
next
  case (Delete n)
  assume "book_inv book"
  then show ?thesis using Delete by (simp add: book_inv_delete)
qed

lemma book_inv_foldl: "book_inv book \<Longrightarrow> book_inv (foldl apply_book_op book ops)"
  by (induction ops arbitrary: book) (auto simp: book_inv_apply_book_op)

lemma book_inv_run: "book_inv (run ops)"
  unfolding run_def by (rule book_inv_foldl) (simp add: book_inv_def book_wf_def)


lemma book_wf_names: "book_wf book \<Longrightarrow> map name (dict_values book) = map fst book"
  by (induction book) (auto simp: book_wf_def dict_values_def)

text \<open>
  Claim C8. \<^verbatim>\<open>add_record\<close> cannot raise (its model has no error result). After it
  the record's name is bound to the record that was added, whatever was bound
  before, and every other name is bound as before; the book grows by one item only
  if the name was new. After every sequence of operations the keys of the book are
  distinct, and so are the names of its records.
\<close>

theorem add_record_last_write_wins:
  "find_record (add_record book r) (name r) = Some r
   \<and> (\<forall>m. m \<noteq> name r \<longrightarrow> find_record (add_record book r) m = find_record book m)
   \<and> length (add_record book r) =
       (if dict_contains book (name r) then length book else Suc (length book))
   \<and> (distinct (map fst book) \<longrightarrow> distinct (map fst (add_record book r)))
   \<and> distinct (map fst (run ops))
   \<and> distinct (map name (dict_values (run ops)))"
proof (intro conjI allI impI)
  show "find_record (add_record book r) (name r) = Some r"
    by (simp add: find_record_def add_record_def dict_get_setitem)
  show "length (add_record book r) =
       (if dict_contains book (name r) then length book else Suc (length book))"
    by (simp add: add_record_def dict_contains_def length_setitem)
  have wf: "book_wf (run ops)" using book_inv_run [of ops] by (simp add: book_inv_def)
  then show d: "distinct (map fst (run ops))" by (simp add: book_wf_def)
  show "distinct (map name (dict_values (run ops)))"
    using d book_wf_names [OF wf] by simp
next
  fix m assume "m \<noteq> name r"
  then show "find_record (add_record book r) m = find_record book m"
    by (simp add: find_record_def add_record_def dict_get_setitem)
next
  assume "distinct (map fst book)"
  then show "distinct (map fst (add_record book r))"
    by (simp add: add_record_def distinct_setitem)
qed

theorem add_record_last_write_wins_witness:
  "find_record (add_record [(''Ann'', \<lparr>name = ''Ann'', phones = [Phone_obj ''1234567890''], birthday = None\<rparr>),
                     (''Bob'', Record_init ''Bob'')] (Record_init ''Ann'')) ''Ann''
     = Some (Record_init ''Ann'')
   \<and> find_record (add_record [(''Ann'', \<lparr>name = ''Ann'', phones = [Phone_obj ''1234567890''], birthday = None\<rparr>),
                     (''Bob'', Record_init ''Bob'')] (Record_init ''Ann'')) ''Bob''
     = Some (Record_init ''Bob'')
   \<and> length (add_record [(''Ann'', \<lparr>name = ''Ann'', phones = [Phone_obj ''1234567890''], birthday = None\<rparr>),
                     (''Bob'', Record_init ''Bob'')] (Record_init ''Ann'')) = 2
   \<and> distinct (map fst (add_record [(''Ann'', \<lparr>name = ''Ann'', phones = [Phone_obj ''1234567890''], birthday = None\<rparr>),
                     (''Bob'', Record_init ''Bob'')] (Record_init ''Ann'')))
   \<and> run [AddRecord ''Ann'' [AddPhone ''1234567890''], AddRecord ''Ann'' []]
     = [(''Ann'', Record_init ''Ann'')]
   \<and> distinct (map fst (run [AddRecord ''Ann'' [AddPhone ''1234567890''], AddRecord ''Ann'' []]))"
  using add_record_last_write_wins
    [of "[(''Ann'', \<lparr>name = ''Ann'', phones = [Phone_obj ''1234567890''], birthday = None\<rparr>),
          (''Bob'', Record_init ''Bob'')]" "Record_init ''Ann''"
        "[AddRecord ''Ann'' [AddPhone ''1234567890''], AddRecord ''Ann'' []]"]
  by (simp add: find_record_def add_record_def Record_init_def run_def add_phone_def Phone_eq
        isdigit_char_def dict_contains_def)

text \<open>
  Claim C10. In every book a client can build, every phone of every record that
  \<^verbatim>\<open>find\<close> returns passed \<^verbatim>\<open>Phone.validate\<close>: its text has length 10 and
  \<^verbatim>\<open>isdigit\<close> holds of each character. A new record has no phone; \<^verbatim>\<open>add_phone\<close>
  and \<^verbatim>\<open>edit_phone\<close> keep the property, whether they raise or not, and
  \<^verbatim>\<open>remove_phone\<close> only takes phones away.
\<close>

theorem stored_phones_validated:
  "(find_record (run ops) n = Some r \<and> p \<in> set (phones r) \<longrightarrow>
      Phone_validate (phone_value p) = Inr () \<and>
      length (phone_value p) = 10 \<and> list_all isdigit_char (phone_value p))
   \<and> phones_valid (Record_init n)
   \<and> (phones_valid r' \<longrightarrow>
        phones_valid (snd (add_phone r' s)) \<and>
        phones_valid (snd (edit_phone r' old new)) \<and>
        phones_valid (remove_phone r' s))
   \<and> set (phones (remove_phone r' s)) \<subseteq> set (phones r')"
proof (intro conjI impI)
  assume a: "find_record (run ops) n = Some r \<and> p \<in> set (phones r)"
  then have "(n, r) \<in> set (run ops)" by (simp add: find_record_def dict_get_Some_mem)
  with book_inv_run [of ops] have "phones_valid r"
    by (auto simp: book_inv_def list_all_iff)
  with a show v: "Phone_validate (phone_value p) = Inr ()"
    by (auto simp: phones_valid_def list_all_iff)
  from v show "length (phone_value p) = 10" by (simp add: Phone_validate_iff)
  from v show "list_all isdigit_char (phone_value p)" by (simp add: Phone_validate_iff)
next
  show "phones_valid (Record_init n)" by (rule phones_valid_init)
  show "set (phones (remove_phone r' s)) \<subseteq> set (phones r')"
    by (auto simp: remove_phone_def)
next
  assume v: "phones_valid r'"
  show "phones_valid (snd (add_phone r' s))" by (rule phones_valid_add_phone [OF v])
  show "phones_valid (snd (edit_phone r' old new))" by (rule phones_valid_edit_phone [OF v])
  show "phones_valid (remove_phone r' s)" by (rule phones_valid_remove_phone [OF v])
qed

theorem stored_phones_validated_witness:
  "find_record (run [AddRecord ''Ann'' [AddPhone ''1234567890'', AddPhone ''12345''],
              OnRecord ''Ann'' (EditPhone ''1234567890'' ''0987654321''),
              OnRecord ''Ann'' (AddPhone ''5555555555''),
              OnRecord ''Ann'' (EditPhone ''5555555555'' ''x'')]) ''Ann''
     = Some \<lparr>name = ''Ann'', phones = [Phone_obj ''0987654321'', Phone_obj ''5555555555''],
             birthday = None\<rparr>
   \<and> Phone_obj ''0987654321'' \<in> set (phones \<lparr>name = ''Ann'',
        phones = [Phone_obj ''0987654321'', Phone_obj ''5555555555''], birthday = None\<rparr>)
   \<and> Phone_validate (phone_value (Phone_obj ''0987654321'')) = Inr ()
   \<and> phones_valid \<lparr>name = ''Ann'', phones = [Phone_obj ''0987654321''], birthday = None\<rparr>
   \<and> phones_valid (snd (add_phone
        \<lparr>name = ''Ann'', phones = [Phone_obj ''0987654321''], birthday = None\<rparr> ''12''))"
  using stored_phones_validated
    [of "[AddRecord ''Ann'' [AddPhone ''1234567890'', AddPhone ''12345''],
              OnRecord ''Ann'' (EditPhone ''1234567890'' ''0987654321''),
              OnRecord ''Ann'' (AddPhone ''5555555555''),
              OnRecord ''Ann'' (EditPhone ''5555555555'' ''x'')]" "''Ann''"
        "\<lparr>name = ''Ann'', phones = [Phone_obj ''0987654321'', Phone_obj ''5555555555''],
             birthday = None\<rparr>" "Phone_obj ''0987654321''"
        "\<lparr>name = ''Ann'', phones = [Phone_obj ''0987654321''], birthday = None\<rparr>" "''12''"]
  by (simp add: find_record_def add_record_def Record_init_def run_def add_phone_def edit_phone_def
        Phone_eq isdigit_char_def Phone_validate_iff phones_valid_def)

section \<open>Calendar arithmetic\<close>

lemma div_step:
  fixes y k :: int
  assumes "0 < k"
  shows "y div k = (y - 1) div k + (if y mod k = 0 then 1 else 0)"
proof (cases "y mod k = 0")
  case True
  then obtain q where q: "y = k * q" by auto
  have "(y - 1) div k = q - 1"
  proof (rule int_div_pos_eq [where r = "k - 1"])
    show "y - 1 = k * (q - 1) + (k - 1)" using q by (simp add: algebra_simps)
    show "0 \<le> k - 1" using assms by simp
    show "k - 1 < k" by simp
  qed
  moreover have "y div k = q" using q assms by simp
  ultimately show ?thesis using True by simp
next
  case False
  define r where "r = y mod k"
  define q where "q = y div k"
  have y: "y = k * q + r" unfolding q_def r_def by simp
  have "0 \<le> r" "r < k" "r \<noteq> 0" using False assms unfolding r_def by simp_all
  then have r: "0 < r" "r < k" by simp_all
  have "(y - 1) div k = q"
  proof (rule int_div_pos_eq [where r = "r - 1"])
    show "y - 1 = k * q + (r - 1)" using y by simp
    show "0 \<le> r - 1" using r by simp
    show "r - 1 < k" using r by simp
  qed
  then show ?thesis using False q_def by simp
qed


lemma dby_step:
  "days_before_year (y + 1) = days_before_year y + (if is_leap y then 366 else 365)"
proof -
  define a4 where "a4 = (y - 1) div 4"
  define a100 where "a100 = (y - 1) div 100"
  define a400 where "a400 = (y - 1) div 400"
  define b4 where "b4 = y div 4"
  define b100 where "b100 = y div 100"
  define b400 where "b400 = y div 400"
  have m1: "y mod 100 = 0 \<Longrightarrow> y mod 4 = 0"
    using mod_mod_cancel [of 4 100 y] by simp
  have m2: "y mod 400 = 0 \<Longrightarrow> y mod 100 = 0"
    using mod_mod_cancel [of 100 400 y] by simp
  have d4: "b4 = a4 + (if y mod 4 = 0 then 1 else 0)"
    unfolding a4_def b4_def by (rule div_step) simp
  have d100: "b100 = a100 + (if y mod 100 = 0 then 1 else 0)"
    unfolding a100_def b100_def by (rule div_step) simp
  have d400: "b400 = a400 + (if y mod 400 = 0 then 1 else 0)"
    unfolding a400_def b400_def by (rule div_step) simp
  have e: "days_before_year (y + 1) = y * 365 + b4 - b100 + b400"
    by (simp add: days_before_year_def b4_def b100_def b400_def)
  have f: "days_before_year y = (y - 1) * 365 + a4 - a100 + a400"
    by (simp add: days_before_year_def Let_def a4_def a100_def a400_def)
  show ?thesis
  proof (cases "y mod 4 = 0")
    case False
    with m1 m2 have "y mod 100 \<noteq> 0" "y mod 400 \<noteq> 0" by auto
    with False d4 d100 d400 show ?thesis unfolding e f is_leap_def by simp
  next
    case 4: True
    show ?thesis
    proof (cases "y mod 100 = 0")
      case False
      with m2 have "y mod 400 \<noteq> 0" by auto
      with 4 False d4 d100 d400 show ?thesis unfolding e f is_leap_def by simp
    next
      case 100: True
      show ?thesis
      proof (cases "y mod 400 = 0")
        case False
        with 4 100 d4 d100 d400 show ?thesis unfolding e f is_leap_def by simp
      next
        case True
        with 4 100 d4 d100 d400 show ?thesis unfolding e f is_leap_def by simp
      qed
    qed
  qed
qed

lemma dby_mono: "y \<le> y' \<Longrightarrow> days_before_year y \<le> days_before_year y'"
proof (induction y' rule: int_ge_induct)
  case base
  then show ?case by simp
next
  case (step i)
  then show ?case using dby_step [of i] by (simp split: if_splits)
qed

lemma ord2md_correct:
  assumes "0 \<le> n" "n \<le> 364" "ord2md n L = (m, d)"
  shows "1 \<le> m \<and> m \<le> 12 \<and> 1 \<le> d \<and> d \<le> DAYS_IN_MONTH m + (if m = 2 \<and> L then 1 else 0)
         \<and> DAYS_BEFORE_MONTH m + (if m > 2 \<and> L then 1 else 0) + d = n + 1"
proof -
  define m0 where "m0 = (n + 50) div 32"
  have r: "32 * m0 - 50 \<le> n" "n \<le> 32 * m0 - 19" unfolding m0_def by presburger+
  with assms(1,2) have "1 \<le> m0" "m0 \<le> 12" by presburger+
  then have "m0 = 1 \<or> m0 = 2 \<or> m0 = 3 \<or> m0 = 4 \<or> m0 = 5 \<or> m0 = 6 \<or> m0 = 7 \<or> m0 = 8
     \<or> m0 = 9 \<or> m0 = 10 \<or> m0 = 11 \<or> m0 = 12" by presburger
  then show ?thesis
    using assms r unfolding ord2md_def m0_def [symmetric] Let_def
    by (elim disjE) (auto simp: DAYS_BEFORE_MONTH_def DAYS_IN_MONTH_def split: if_splits)
qed

lemma month_cases:
  "1 \<le> (m::int) \<Longrightarrow> m \<le> 12 \<Longrightarrow>
   m = 1 \<or> m = 2 \<or> m = 3 \<or> m = 4 \<or> m = 5 \<or> m = 6 \<or> m = 7 \<or> m = 8
     \<or> m = 9 \<or> m = 10 \<or> m = 11 \<or> m = 12"
  by presburger




lemma dbm_year:
  "1 \<le> m \<Longrightarrow> m \<le> 12 \<Longrightarrow>
   0 \<le> days_before_month y m \<and>
   days_before_month y m + days_in_month y m \<le> (if is_leap y then 366 else 365)"
  using month_cases [of m]
  by (auto simp: days_before_month_def days_in_month_def DAYS_BEFORE_MONTH_def DAYS_IN_MONTH_def)



lemma toordinal_bounds:
  assumes "valid_date d"
  shows "1 \<le> toordinal d \<and> toordinal d \<le> MAXORDINAL"
proof -
  have y: "1 \<le> year d" "year d \<le> 9999" using assms by (auto simp: valid_date_def MINYEAR_def MAXYEAR_def)
  have "days_before_year 1 \<le> days_before_year (year d)" using y by (intro dby_mono)
  moreover have "days_before_year 1 = 0" by (simp add: days_before_year_def)
  ultimately have "1 \<le> toordinal d"
    using assms dbm_year [of "month d" "year d"]
    by (auto simp: toordinal_def ymd2ord_def valid_date_def)
  have "toordinal d \<le> days_before_year (year d) + (if is_leap (year d) then 366 else 365)"
    using assms dbm_year [of "month d" "year d"]
    by (auto simp: toordinal_def ymd2ord_def valid_date_def split: if_splits)
  also have "\<dots> = days_before_year (year d + 1)" by (simp add: dby_step)
  also have "\<dots> \<le> days_before_year 10000" using y by (intro dby_mono) simp
  also have "\<dots> = MAXORDINAL" by (simp add: days_before_year_def MAXORDINAL_def)
  finally show ?thesis using \<open>1 \<le> toordinal d\<close> by simp
qed

lemma dby_decomp:
  assumes "0 \<le> b" "b \<le> 3" "0 \<le> c" "c \<le> 24" "0 \<le> e" "e \<le> 3"
  shows "days_before_year (400 * a + 100 * b + 4 * c + e + 1) =
         146097 * a + 36524 * b + 1461 * c + 365 * e"
proof -
  define y1 where "y1 = 400 * a + 100 * b + 4 * c + e"
  have d4: "y1 div 4 = 100 * a + 25 * b + c"
    by (rule int_div_pos_eq [where r = e]) (use assms in \<open>simp_all add: y1_def\<close>)
  have d100: "y1 div 100 = 4 * a + b"
    by (rule int_div_pos_eq [where r = "4 * c + e"]) (use assms in \<open>simp_all add: y1_def\<close>)
  have d400: "y1 div 400 = a"
    by (rule int_div_pos_eq [where r = "100 * b + 4 * c + e"])
       (use assms in \<open>simp_all add: y1_def\<close>)
  have "days_before_year (y1 + 1) = y1 * 365 + y1 div 4 - y1 div 100 + y1 div 400"
    by (simp add: days_before_year_def)
  also have "\<dots> = 146097 * a + 36524 * b + 1461 * c + 365 * e"
    unfolding d4 d100 d400 by (simp add: y1_def)
  finally show ?thesis by (simp add: y1_def)
qed

lemma is_leap_decomp:
  assumes "0 \<le> b" "b \<le> 3" "0 \<le> c" "c \<le> 24" "0 \<le> e" "e \<le> 3"
  shows "is_leap (400 * a + 100 * b + 4 * c + e + 1) \<longleftrightarrow> (e = 3 \<and> (c \<noteq> 24 \<or> b = 3))"
proof -
  define y where "y = 400 * a + 100 * b + 4 * c + e + 1"
  have m4: "y mod 4 = (e + 1) mod 4"
  proof -
    have "y = (e + 1) + (100 * a + 25 * b + c) * 4" by (simp add: y_def)
    then show ?thesis by (simp only: mod_mult_self1)
  qed
  have m100: "y mod 100 = (4 * c + e + 1) mod 100"
  proof -
    have "y = (4 * c + e + 1) + (4 * a + b) * 100" by (simp add: y_def)
    then show ?thesis by (simp only: mod_mult_self1)
  qed
  have m400: "y mod 400 = (100 * b + 4 * c + e + 1) mod 400"
  proof -
    have "y = (100 * b + 4 * c + e + 1) + a * 400" by (simp add: y_def)
    then show ?thesis by (simp only: mod_mult_self1)
  qed
  have z4: "(e + 1) mod 4 = 0 \<longleftrightarrow> e = 3"
  proof (cases "e = 3")
    case True then show ?thesis by simp
  next
    case False
    with assms have "(e + 1) mod 4 = e + 1" by (intro mod_pos_pos_trivial) auto
    with False assms show ?thesis by simp
  qed
  have z100: "(4 * c + e + 1) mod 100 = 0 \<longleftrightarrow> (c = 24 \<and> e = 3)"
  proof (cases "c = 24 \<and> e = 3")
    case True then show ?thesis by simp
  next
    case False
    with assms have "4 * c + e + 1 < 100" by auto
    with assms have "(4 * c + e + 1) mod 100 = 4 * c + e + 1" by (intro mod_pos_pos_trivial) auto
    with False assms show ?thesis by auto
  qed
  have z400: "(100 * b + 4 * c + e + 1) mod 400 = 0 \<longleftrightarrow> (b = 3 \<and> c = 24 \<and> e = 3)"
  proof (cases "b = 3 \<and> c = 24 \<and> e = 3")
    case True then show ?thesis by simp
  next
    case False
    with assms have "100 * b + 4 * c + e + 1 < 400" by auto
    with assms have "(100 * b + 4 * c + e + 1) mod 400 = 100 * b + 4 * c + e + 1"
      by (intro mod_pos_pos_trivial) auto
    with False assms show ?thesis by auto
  qed
  show ?thesis
    unfolding is_leap_def y_def [symmetric] m4 m100 m400 z4 z100 z400 by auto
qed

lemma year_below_10000:
  assumes "days_before_year y \<le> 3652058"
  shows "y \<le> 9999"
proof (rule ccontr)
  assume "\<not> y \<le> 9999"
  then have "10000 \<le> y" by simp
  then have "days_before_year 10000 \<le> days_before_year y" by (rule dby_mono)
  moreover have "days_before_year 10000 = 3652059" by (simp add: days_before_year_def)
  ultimately show False using assms by simp
qed

lemma ord2ymd_correct:
  assumes "1 \<le> n" "n \<le> MAXORDINAL"
  shows "valid_date (ord2ymd n) \<and> toordinal (ord2ymd n) = n"
proof -
  define n' where "n' = n - 1"
  define a where "a = n' div 146097"
  define r1 where "r1 = n' mod 146097"
  define b where "b = r1 div 36524"
  define r2 where "r2 = r1 mod 36524"
  define c where "c = r2 div 1461"
  define r3 where "r3 = r2 mod 1461"
  define e where "e = r3 div 365"
  define r4 where "r4 = r3 mod 365"
  define Y where "Y = 400 * a + 100 * b + 4 * c + e + 1"
  have n': "0 \<le> n'" "n' \<le> 3652058" using assms by (simp_all add: n'_def MAXORDINAL_def)
  have e1: "n' = 146097 * a + r1" by (simp add: a_def r1_def)
  have e2: "r1 = 36524 * b + r2" by (simp add: b_def r2_def)
  have e3: "r2 = 1461 * c + r3" by (simp add: c_def r3_def)
  have e4: "r3 = 365 * e + r4" by (simp add: e_def r4_def)
  have b1: "0 \<le> r1" "r1 < 146097" by (simp_all add: r1_def)
  have b2: "0 \<le> r2" "r2 < 36524" by (simp_all add: r2_def)
  have b3: "0 \<le> r3" "r3 < 1461" by (simp_all add: r3_def)
  have b4: "0 \<le> r4" "r4 < 365" by (simp_all add: r4_def)
  have a0: "0 \<le> a" using n' by (simp add: a_def pos_imp_zdiv_nonneg_iff)
  have b0: "0 \<le> b" using b1 by (simp add: b_def pos_imp_zdiv_nonneg_iff)
  have c0: "0 \<le> c" using b2 by (simp add: c_def pos_imp_zdiv_nonneg_iff)
  have e0: "0 \<le> e" using b3 by (simp add: e_def pos_imp_zdiv_nonneg_iff)
  have b4': "b \<le> 4" using e2 b1 b2 by linarith
  have c24: "c \<le> 24" using e3 b2 b3 by linarith
  have e4': "e \<le> 4" using e4 b3 b4 by linarith
  have unf: "ord2ymd n =
     (if e = 4 \<or> b = 4 then \<lparr>year = Y - 1, month = 12, day = 31\<rparr>
      else (case ord2md r4 (e = 3 \<and> (c \<noteq> 24 \<or> b = 3)) of
              (m, d) \<Rightarrow> \<lparr>year = Y, month = m, day = d\<rparr>))"
    unfolding ord2ymd_def Let_def
    by (simp add: n'_def a_def r1_def b_def r2_def c_def r3_def e_def r4_def Y_def
          algebra_simps)
  show ?thesis
  proof (cases "b = 4")
    case True
    with e2 b1 b2 have "r2 = 0" by linarith
    with e3 c0 b3 have "c = 0" "r3 = 0" by linarith+
    with e4 e0 b4 have "e = 0" "r4 = 0" by linarith+
    have n_eq: "n = 146097 * a + 146097"
      using e1 e2 True \<open>r2 = 0\<close> by (simp add: n'_def)
    have a23: "a \<le> 23" using n_eq n' by (simp add: n'_def)
    have Y1: "Y - 1 = 400 * a + 100 * 3 + 4 * 24 + 3 + 1"
      using True \<open>c = 0\<close> \<open>e = 0\<close> by (simp add: Y_def)
    have dby: "days_before_year (Y - 1) = 146097 * a + 36524 * 3 + 1461 * 24 + 365 * 3"
      unfolding Y1 by (rule dby_decomp) simp_all
    have leap: "is_leap (Y - 1)"
      unfolding Y1 by (subst is_leap_decomp) simp_all
    have d: "ord2ymd n = \<lparr>year = Y - 1, month = 12, day = 31\<rparr>" using True unf by simp
    have "valid_date (ord2ymd n)"
      using a0 a23 unfolding d
      by (simp add: valid_date_def Y1 MINYEAR_def MAXYEAR_def days_in_month_def DAYS_IN_MONTH_def)
    moreover have "toordinal (ord2ymd n) = n"
      unfolding d using dby leap n_eq
      by (simp add: toordinal_def ymd2ord_def days_before_month_def DAYS_BEFORE_MONTH_def)
    ultimately show ?thesis by simp
  next
    case False
    with b4' have b3': "b \<le> 3" by simp
    show ?thesis
    proof (cases "e = 4")
      case True
      with e4 b3 b4 have "r4 = 0" "r3 = 1460" by linarith+
      with e3 b2 c24 have c23: "c \<le> 23" by linarith
      have n_eq: "n = 146097 * a + 36524 * b + 1461 * c + 1461"
        using e1 e2 e3 \<open>r3 = 1460\<close> by (simp add: n'_def)
      have Y1: "Y - 1 = 400 * a + 100 * b + 4 * c + 3 + 1"
        using True by (simp add: Y_def)
      have dby: "days_before_year (Y - 1) = 146097 * a + 36524 * b + 1461 * c + 365 * 3"
        unfolding Y1 by (rule dby_decomp) (use b0 b3' c0 c24 in simp_all)
      have leap: "is_leap (Y - 1)"
        unfolding Y1 by (subst is_leap_decomp) (use b0 b3' c0 c24 c23 in simp_all)
      have d: "ord2ymd n = \<lparr>year = Y - 1, month = 12, day = 31\<rparr>" using True unf by simp
      have "days_before_year (Y - 1) \<le> 3652058" using dby n_eq n' by (simp add: n'_def)
      then have "Y - 1 \<le> 9999" by (rule year_below_10000)
      moreover have "1 \<le> Y - 1" using a0 b0 c0 unfolding Y1 by simp
      ultimately have "valid_date (ord2ymd n)"
        unfolding d
        by (simp add: valid_date_def MINYEAR_def MAXYEAR_def days_in_month_def DAYS_IN_MONTH_def)
      moreover have "toordinal (ord2ymd n) = n"
        unfolding d using dby leap n_eq
        by (simp add: toordinal_def ymd2ord_def days_before_month_def DAYS_BEFORE_MONTH_def)
      ultimately show ?thesis by simp
    next
      case e4n: False
      with e4' have e3': "e \<le> 3" by simp
      define L where "L = (e = 3 \<and> (c \<noteq> 24 \<or> b = 3))"
      obtain m d where md: "ord2md r4 L = (m, d)" by (cases "ord2md r4 L")
      have d_eq: "ord2ymd n = \<lparr>year = Y, month = m, day = d\<rparr>"
        using unf False e4n md by (simp add: L_def)
      have n_eq: "n = 146097 * a + 36524 * b + 1461 * c + 365 * e + r4 + 1"
        using e1 e2 e3 e4 by (simp add: n'_def)
      have dby: "days_before_year Y = 146097 * a + 36524 * b + 1461 * c + 365 * e"
        unfolding Y_def by (rule dby_decomp) (use b0 b3' c0 c24 e0 e3' in simp_all)
      have leap: "is_leap Y \<longleftrightarrow> L"
        unfolding Y_def L_def by (rule is_leap_decomp) (use b0 b3' c0 c24 e0 e3' in simp_all)
      from ord2md_correct [OF _ _ md] b4
      have md_ok: "1 \<le> m" "m \<le> 12" "1 \<le> d"
        "d \<le> DAYS_IN_MONTH m + (if m = 2 \<and> L then 1 else 0)"
        "DAYS_BEFORE_MONTH m + (if m > 2 \<and> L then 1 else 0) + d = r4 + 1"
        by simp_all
      have "days_before_year Y \<le> 3652058" using dby n_eq n' b4 by (simp add: n'_def)
      then have "Y \<le> 9999" by (rule year_below_10000)
      moreover have "1 \<le> Y" using a0 b0 c0 e0 unfolding Y_def by simp
      moreover have "d \<le> days_in_month Y m"
        using md_ok(4) leap by (auto simp: days_in_month_def DAYS_IN_MONTH_def split: if_splits)
      ultimately have "valid_date (ord2ymd n)"
        unfolding d_eq using md_ok(1-3)
        by (simp add: valid_date_def MINYEAR_def MAXYEAR_def)
      moreover have "toordinal (ord2ymd n) = n"
        unfolding d_eq using dby leap n_eq md_ok(5)
        by (simp add: toordinal_def ymd2ord_def days_before_month_def)
      ultimately show ?thesis by simp
    qed
  qed
qed

section \<open>The loop of the query\<close>

lemma weekday_range: "0 \<le> weekday d \<and> weekday d \<le> 6"
  by (simp add: weekday_def)

lemma replace_year_Inr:
  "replace_year bd y = Inr d \<Longrightarrow> d = \<lparr>year = y, month = month bd, day = day bd\<rparr> \<and> valid_date d"
  by (auto simp: replace_year_def dest: date_new_valid)

lemma replace_year_Inl: "replace_year bd y = Inl e \<Longrightarrow> \<exists>m. e = ValueError m"
  by (auto simp: replace_year_def date_new_def split: if_splits)

lemma next_birthday_Inr:
  "next_birthday today bd = Inr nb \<Longrightarrow> nb = spec_next_birthday today bd \<and> valid_date nb"
  by (auto simp: next_birthday_def spec_next_birthday_def Let_def
        split: sum.splits if_splits dest!: replace_year_Inr)

lemma next_birthday_Inl: "next_birthday today bd = Inl e \<Longrightarrow> \<exists>m. e = ValueError m"
  by (auto simp: next_birthday_def split: sum.splits if_splits dest: replace_year_Inl)


lemma weekend_fits:
  fixes t :: int
  shows "t \<le> 3652059 \<Longrightarrow> (t + 6) mod 7 = 5 \<Longrightarrow> t + 2 \<le> 3652059"
    and "t \<le> 3652059 \<Longrightarrow> (t + 6) mod 7 = 6 \<Longrightarrow> t + 1 \<le> 3652059"
  by presburger+

lemma adjust_for_weekend_eq:
  assumes "valid_date nb"
  shows "adjust_for_weekend nb = Inr (spec_congratulation_date nb)"
proof -
  have b: "1 \<le> toordinal nb" "toordinal nb \<le> 3652059"
    using toordinal_bounds [OF assms] by (simp_all add: MAXORDINAL_def)
  have r: "0 \<le> weekday nb" "weekday nb \<le> 6" using weekday_range [of nb] by simp_all
  consider "weekday nb = 5" | "weekday nb = 6" | "weekday nb < 5" using r by linarith
  then show ?thesis
  proof cases
    case 1
    with b weekend_fits(1) [of "toordinal nb"] show ?thesis
      by (simp add: adjust_for_weekend_def find_next_weekday_def date_add_def
            spec_congratulation_date_def MAXORDINAL_def weekday_def Let_def)
  next
    case 2
    with b weekend_fits(2) [of "toordinal nb"] show ?thesis
      by (simp add: adjust_for_weekend_def find_next_weekday_def date_add_def
            spec_congratulation_date_def MAXORDINAL_def weekday_def Let_def)
  next
    case 3
    then show ?thesis
      by (simp add: adjust_for_weekend_def spec_congratulation_date_def)
  qed
qed

lemma spec_congratulation_date_props:
  assumes "valid_date nb"
  shows "valid_date (spec_congratulation_date nb) \<and>
         toordinal (spec_congratulation_date nb) =
           toordinal nb + (if weekday nb = 5 then 2 else if weekday nb = 6 then 1 else 0) \<and>
         weekday (spec_congratulation_date nb) \<le> 4 \<and>
         (5 \<le> weekday nb \<longrightarrow> weekday (spec_congratulation_date nb) = 0)"
proof -
  have b: "1 \<le> toordinal nb" "toordinal nb \<le> 3652059"
    using toordinal_bounds [OF assms] by (simp_all add: MAXORDINAL_def)
  have r: "0 \<le> weekday nb" "weekday nb \<le> 6" using weekday_range [of nb] by simp_all
  consider "weekday nb = 5" | "weekday nb = 6" | "weekday nb < 5" using r by linarith
  then show ?thesis
  proof cases
    case 1
    then have w: "(toordinal nb + 6) mod 7 = 5" by (simp add: weekday_def)
    have "toordinal nb + 2 \<le> MAXORDINAL"
      using b weekend_fits(1) [OF b(2) w] by (simp add: MAXORDINAL_def)
    with b have c: "valid_date (ord2ymd (toordinal nb + 2))"
      "toordinal (ord2ymd (toordinal nb + 2)) = toordinal nb + 2"
      using ord2ymd_correct [of "toordinal nb + 2"] by simp_all
    have "(toordinal nb + 2 + 6) mod 7 = 0" using w by presburger
    with 1 c show ?thesis by (simp add: spec_congratulation_date_def weekday_def)
  next
    case 2
    then have w: "(toordinal nb + 6) mod 7 = 6" by (simp add: weekday_def)
    have "toordinal nb + 1 \<le> MAXORDINAL"
      using b weekend_fits(2) [OF b(2) w] by (simp add: MAXORDINAL_def)
    with b have c: "valid_date (ord2ymd (toordinal nb + 1))"
      "toordinal (ord2ymd (toordinal nb + 1)) = toordinal nb + 1"
      using ord2ymd_correct [of "toordinal nb + 1"] by simp_all
    have "(toordinal nb + 1 + 6) mod 7 = 0" using w by presburger
    with 2 c show ?thesis by (simp add: spec_congratulation_date_def weekday_def)
  next
    case 3
    with assms show ?thesis by (simp add: spec_congratulation_date_def)
  qed
qed

lemma upcoming_loop_no_raise:
  "\<not> list_ex (raises today) rs \<Longrightarrow>
   upcoming_loop today rs acc =
     Inr (acc @ map (spec_entry today) (filter (spec_in_window today) rs))"
proof (induction rs arbitrary: acc)
  case Nil
  then show ?case by simp
next
  case (Cons r rs)
  then have nr: "\<not> raises today r" and IH: "\<And>acc. upcoming_loop today rs acc =
     Inr (acc @ map (spec_entry today) (filter (spec_in_window today) rs))" by simp_all
  show ?case
  proof (cases "birthday r")
    case None
    then have "\<not> spec_in_window today r" by (simp add: spec_in_window_def)
    with None show ?thesis by (simp add: IH)
  next
    case (Some b)
    with nr obtain nb where nb: "next_birthday today (birthday_date b) = Inr nb"
      by (auto simp: raises_def split: sum.splits)
    then have s: "nb = spec_next_birthday today (birthday_date b)" and v: "valid_date nb"
      by (simp_all add: next_birthday_Inr)
    have w: "spec_in_window today r \<longleftrightarrow>
             0 \<le> days_between nb today \<and> days_between nb today \<le> 7"
      using Some s by (simp add: spec_in_window_def Let_def)
    have e: "spec_entry today r =
             \<lparr>c_name = name r, congratulation_date = strftime (spec_congratulation_date nb)\<rparr>"
      using Some s by (simp add: spec_entry_def)
    show ?thesis
      using Some nb adjust_for_weekend_eq [OF v] w e
      by (simp add: IH)
  qed
qed

lemma upcoming_loop_raise:
  "list_ex (raises today) rs \<Longrightarrow> \<exists>m. upcoming_loop today rs acc = Inl (ValueError m)"
proof (induction rs arbitrary: acc)
  case Nil
  then show ?case by simp
next
  case (Cons r rs)
  show ?case
  proof (cases "raises today r")
    case True
    then obtain b e where "birthday r = Some b" "next_birthday today (birthday_date b) = Inl e"
      by (auto simp: raises_def split: option.splits sum.splits)
    then show ?thesis using next_birthday_Inl [of today "birthday_date b" e] by auto
  next
    case False
    with Cons.prems have ex: "list_ex (raises today) rs" by simp
    show ?thesis
    proof (cases "birthday r")
      case None
      then show ?thesis using Cons.IH [OF ex] by simp
    next
      case (Some b)
      with False obtain nb where nb: "next_birthday today (birthday_date b) = Inr nb"
        by (auto simp: raises_def split: sum.splits)
      then have v: "valid_date nb" by (simp add: next_birthday_Inr)
      show ?thesis
        using Some nb adjust_for_weekend_eq [OF v] Cons.IH [OF ex]
        by simp
    qed
  qed
qed

section \<open>The query\<close>

lemma digit_char_eval:
  "digit_char 0 = CHR ''0''" "digit_char 1 = CHR ''1''" "digit_char 2 = CHR ''2''"
  "digit_char 3 = CHR ''3''" "digit_char 4 = CHR ''4''" "digit_char 5 = CHR ''5''"
  "digit_char 6 = CHR ''6''" "digit_char 7 = CHR ''7''" "digit_char 8 = CHR ''8''"
  "digit_char 9 = CHR ''9''" "digit_char (Suc 0) = CHR ''1''"
  by (simp_all add: digit_char_def char_of_def bit_iff_odd)

lemmas date_eval =
  get_upcoming_birthdays_def dict_values_def next_birthday_def replace_year_def date_new_def
  MINYEAR_def MAXYEAR_def MAXORDINAL_def days_in_month_def DAYS_IN_MONTH_def is_leap_def
  date_less_def days_between_def toordinal_def ymd2ord_def days_before_year_def
  days_before_month_def DAYS_BEFORE_MONTH_def adjust_for_weekend_def find_next_weekday_def
  weekday_def date_add_def ord2ymd_def ord2md_def strftime_def pad2_def pad4_def
  digit_char_eval valid_date_def Let_def

lemma gub_no_raise:
  "\<not> list_ex (raises (dt_date now)) (dict_values book) \<Longrightarrow>
   get_upcoming_birthdays now book =
     Inr (map (spec_entry (dt_date now)) (filter (spec_in_window (dt_date now)) (dict_values book)))"
  using upcoming_loop_no_raise [of "dt_date now" "dict_values book" "[]"]
  by (simp add: get_upcoming_birthdays_def)

lemma gub_raise:
  "list_ex (raises (dt_date now)) (dict_values book) \<Longrightarrow>
   \<exists>m. get_upcoming_birthdays now book = Inl (ValueError m)"
  using upcoming_loop_raise [of "dt_date now" "dict_values book" "[]"]
  by (simp add: get_upcoming_birthdays_def)

lemma gub_Inr:
  assumes "get_upcoming_birthdays now book = Inr out"
  shows "\<not> list_ex (raises (dt_date now)) (dict_values book) \<and>
         out = map (spec_entry (dt_date now))
                 (filter (spec_in_window (dt_date now)) (dict_values book))"
proof -
  have n: "\<not> list_ex (raises (dt_date now)) (dict_values book)"
    using gub_raise [of now book] assms by auto
  with gub_no_raise [OF n] assms show ?thesis by simp
qed





text \<open>
  Claim C2. Whenever the query returns a list, its items are those of the records
  in the window, and the congratulation date of an item is the next birthday
  \<open>nb\<close> of the record after \<^verbatim>\<open>adjust_for_weekend\<close>, formatted. On a date
  \<open>nb\<close> that adjustment never raises; it gives the date two days later when \<open>nb\<close>
  is a Saturday and one day later when it is a Sunday, in both cases a Monday, and
  \<open>nb\<close> itself on a weekday: never an earlier date, never more than two days later.
  It is applied to the date that passed the window test, and the window is not
  tested again: in the example after the theorem an item is nine days after today.
\<close>

theorem congratulation_date_weekend_shift:
  "(\<forall>out. get_upcoming_birthdays now book = Inr out \<longrightarrow>
      out = map (spec_entry (dt_date now))
              (filter (spec_in_window (dt_date now)) (dict_values book)))
   \<and> (\<forall>out r' b. get_upcoming_birthdays now book = Inr out \<and>
        r' \<in> set (dict_values book) \<and> birthday r' = Some b \<longrightarrow>
        next_birthday (dt_date now) (birthday_date b) =
          Inr (spec_next_birthday (dt_date now) (birthday_date b)) \<and>
        valid_date (spec_next_birthday (dt_date now) (birthday_date b)))
   \<and> (\<forall>b. birthday r = Some b \<longrightarrow>
        spec_entry (dt_date now) r =
          \<lparr>c_name = name r,
           congratulation_date = strftime (spec_congratulation_date
             (spec_next_birthday (dt_date now) (birthday_date b)))\<rparr>)
   \<and> (valid_date nb \<longrightarrow>
        adjust_for_weekend nb = Inr (spec_congratulation_date nb) \<and>
        valid_date (spec_congratulation_date nb) \<and>
        (weekday nb = 5 \<longrightarrow> days_between (spec_congratulation_date nb) nb = 2) \<and>
        (weekday nb = 6 \<longrightarrow> days_between (spec_congratulation_date nb) nb = 1) \<and>
        (weekday nb < 5 \<longrightarrow> spec_congratulation_date nb = nb) \<and>
        (5 \<le> weekday nb \<longrightarrow> weekday (spec_congratulation_date nb) = 0) \<and>
        0 \<le> days_between (spec_congratulation_date nb) nb \<and>
        days_between (spec_congratulation_date nb) nb \<le> 2)"
proof (intro conjI allI impI)
  fix out assume "get_upcoming_birthdays now book = Inr out"
  from gub_Inr [OF this]
  show "out = map (spec_entry (dt_date now))
              (filter (spec_in_window (dt_date now)) (dict_values book))" by simp
next
  fix out r' b
  assume a: "get_upcoming_birthdays now book = Inr out \<and>
        r' \<in> set (dict_values book) \<and> birthday r' = Some b"
  then have "\<not> list_ex (raises (dt_date now)) (dict_values book)"
    using gub_Inr [of now book out] by simp
  with a have "\<not> raises (dt_date now) r'" by (auto simp: list_ex_iff)
  with a obtain nb0 where nb0: "next_birthday (dt_date now) (birthday_date b) = Inr nb0"
    by (auto simp: raises_def split: sum.splits)
  from next_birthday_Inr [OF nb0]
  have e: "nb0 = spec_next_birthday (dt_date now) (birthday_date b)" and v: "valid_date nb0"
    by blast+
  show "next_birthday (dt_date now) (birthday_date b) =
          Inr (spec_next_birthday (dt_date now) (birthday_date b))"
    using nb0 e by simp
  show "valid_date (spec_next_birthday (dt_date now) (birthday_date b))"
    using v e by simp
next
  fix b assume "birthday r = Some b"
  then show "spec_entry (dt_date now) r =
          \<lparr>c_name = name r,
           congratulation_date = strftime (spec_congratulation_date
             (spec_next_birthday (dt_date now) (birthday_date b)))\<rparr>"
    by (simp add: spec_entry_def)
next
  assume v: "valid_date nb"
  note p = spec_congratulation_date_props [OF v]
  show "adjust_for_weekend nb = Inr (spec_congratulation_date nb)"
    by (rule adjust_for_weekend_eq [OF v])
  show "valid_date (spec_congratulation_date nb)" using p by simp
  show "days_between (spec_congratulation_date nb) nb = 2" if "weekday nb = 5"
    using p that by (simp add: days_between_def)
  show "days_between (spec_congratulation_date nb) nb = 1" if "weekday nb = 6"
    using p that by (simp add: days_between_def)
  show "spec_congratulation_date nb = nb" if "weekday nb < 5"
    using that by (simp add: spec_congratulation_date_def)
  show "weekday (spec_congratulation_date nb) = 0" if "5 \<le> weekday nb"
    using p that by simp
  show "0 \<le> days_between (spec_congratulation_date nb) nb"
    using p by (simp add: days_between_def)
  show "days_between (spec_congratulation_date nb) nb \<le> 2"
    using p by (simp add: days_between_def)
qed


theorem congratulation_date_weekend_shift_witness:
  "get_upcoming_birthdays \<lparr>dt_date = \<lparr>year = 2024, month = 5, day = 11\<rparr>, dt_time = 0\<rparr>
       [(''Ann'', \<lparr>name = ''Ann'', phones = [],
           birthday = Some (Birthday_obj ''12.05.1990'' \<lparr>year = 1990, month = 5, day = 12\<rparr>)\<rparr>),
        (''Bea'', \<lparr>name = ''Bea'', phones = [],
           birthday = Some (Birthday_obj ''15.05.1985'' \<lparr>year = 1985, month = 5, day = 15\<rparr>)\<rparr>),
        (''Eve'', \<lparr>name = ''Eve'', phones = [],
           birthday = Some (Birthday_obj ''18.05.1990'' \<lparr>year = 1990, month = 5, day = 18\<rparr>)\<rparr>)]
     = Inr [\<lparr>c_name = ''Ann'', congratulation_date = ''13.05.2024''\<rparr>,
            \<lparr>c_name = ''Bea'', congratulation_date = ''15.05.2024''\<rparr>,
            \<lparr>c_name = ''Eve'', congratulation_date = ''20.05.2024''\<rparr>]
   \<and> [\<lparr>c_name = ''Ann'', congratulation_date = ''13.05.2024''\<rparr>,
            \<lparr>c_name = ''Bea'', congratulation_date = ''15.05.2024''\<rparr>,
            \<lparr>c_name = ''Eve'', congratulation_date = ''20.05.2024''\<rparr>]
     = map (spec_entry \<lparr>year = 2024, month = 5, day = 11\<rparr>)
         (filter (spec_in_window \<lparr>year = 2024, month = 5, day = 11\<rparr>)
           (dict_values
       [(''Ann'', \<lparr>name = ''Ann'', phones = [],
           birthday = Some (Birthday_obj ''12.05.1990'' \<lparr>year = 1990, month = 5, day = 12\<rparr>)\<rparr>),
        (''Bea'', \<lparr>name = ''Bea'', phones = [],
           birthday = Some (Birthday_obj ''15.05.1985'' \<lparr>year = 1985, month = 5, day = 15\<rparr>)\<rparr>),
        (''Eve'', \<lparr>name = ''Eve'', phones = [],
           birthday = Some (Birthday_obj ''18.05.1990'' \<lparr>year = 1990, month = 5, day = 18\<rparr>)\<rparr>)]))
   \<and> valid_date \<lparr>year = 2024, month = 5, day = 18\<rparr>
   \<and> weekday \<lparr>year = 2024, month = 5, day = 18\<rparr> = 5
   \<and> adjust_for_weekend \<lparr>year = 2024, month = 5, day = 18\<rparr>
       = Inr \<lparr>year = 2024, month = 5, day = 20\<rparr>
   \<and> weekday \<lparr>year = 2024, month = 5, day = 20\<rparr> = 0
   \<and> days_between \<lparr>year = 2024, month = 5, day = 20\<rparr> \<lparr>year = 2024, month = 5, day = 11\<rparr> = 9
   \<and> weekday \<lparr>year = 2024, month = 5, day = 12\<rparr> = 6
   \<and> adjust_for_weekend \<lparr>year = 2024, month = 5, day = 12\<rparr>
       = Inr \<lparr>year = 2024, month = 5, day = 13\<rparr>
   \<and> weekday \<lparr>year = 2024, month = 5, day = 15\<rparr> = 2
   \<and> adjust_for_weekend \<lparr>year = 2024, month = 5, day = 15\<rparr>
       = Inr \<lparr>year = 2024, month = 5, day = 15\<rparr>"
proof -
  have v: "valid_date \<lparr>year = 2024, month = 5, day = 18\<rparr>"
    by (simp add: date_eval)
  have w: "weekday \<lparr>year = 2024, month = 5, day = 18\<rparr> = 5"
    by (simp add: date_eval)
  have c: "spec_congratulation_date \<lparr>year = 2024, month = 5, day = 18\<rparr>
           = \<lparr>year = 2024, month = 5, day = 20\<rparr>"
    by (simp add: spec_congratulation_date_def date_eval)
  note t = congratulation_date_weekend_shift
    [of "\<lparr>dt_date = \<lparr>year = 2024, month = 5, day = 11\<rparr>, dt_time = 0\<rparr>"
        "[(''Ann'', \<lparr>name = ''Ann'', phones = [],
           birthday = Some (Birthday_obj ''12.05.1990'' \<lparr>year = 1990, month = 5, day = 12\<rparr>)\<rparr>),
        (''Bea'', \<lparr>name = ''Bea'', phones = [],
           birthday = Some (Birthday_obj ''15.05.1985'' \<lparr>year = 1985, month = 5, day = 15\<rparr>)\<rparr>),
        (''Eve'', \<lparr>name = ''Eve'', phones = [],
           birthday = Some (Birthday_obj ''18.05.1990'' \<lparr>year = 1990, month = 5, day = 18\<rparr>)\<rparr>)]"
        "Record_init ''Eve''" "\<lparr>year = 2024, month = 5, day = 18\<rparr>"]
  from t v have "adjust_for_weekend \<lparr>year = 2024, month = 5, day = 18\<rparr>
      = Inr (spec_congratulation_date \<lparr>year = 2024, month = 5, day = 18\<rparr>)"
    by blast
  with c have a: "adjust_for_weekend \<lparr>year = 2024, month = 5, day = 18\<rparr>
      = Inr \<lparr>year = 2024, month = 5, day = 20\<rparr>" by simp
  from t v w have "weekday (spec_congratulation_date \<lparr>year = 2024, month = 5, day = 18\<rparr>) = 0"
    by simp
  with c have m: "weekday \<lparr>year = 2024, month = 5, day = 20\<rparr> = 0" by simp
  have g: "get_upcoming_birthdays \<lparr>dt_date = \<lparr>year = 2024, month = 5, day = 11\<rparr>, dt_time = 0\<rparr>
       [(''Ann'', \<lparr>name = ''Ann'', phones = [],
           birthday = Some (Birthday_obj ''12.05.1990'' \<lparr>year = 1990, month = 5, day = 12\<rparr>)\<rparr>),
        (''Bea'', \<lparr>name = ''Bea'', phones = [],
           birthday = Some (Birthday_obj ''15.05.1985'' \<lparr>year = 1985, month = 5, day = 15\<rparr>)\<rparr>),
        (''Eve'', \<lparr>name = ''Eve'', phones = [],
           birthday = Some (Birthday_obj ''18.05.1990'' \<lparr>year = 1990, month = 5, day = 18\<rparr>)\<rparr>)]
     = Inr [\<lparr>c_name = ''Ann'', congratulation_date = ''13.05.2024''\<rparr>,
            \<lparr>c_name = ''Bea'', congratulation_date = ''15.05.2024''\<rparr>,
            \<lparr>c_name = ''Eve'', congratulation_date = ''20.05.2024''\<rparr>]"
    by (simp add: date_eval)
  have d: "days_between \<lparr>year = 2024, month = 5, day = 20\<rparr> \<lparr>year = 2024, month = 5, day = 11\<rparr> = 9"
    by (simp add: date_eval)
  have s: "weekday \<lparr>year = 2024, month = 5, day = 12\<rparr> = 6"
    "adjust_for_weekend \<lparr>year = 2024, month = 5, day = 12\<rparr>
       = Inr \<lparr>year = 2024, month = 5, day = 13\<rparr>"
    by (simp_all add: date_eval)
  have k: "weekday \<lparr>year = 2024, month = 5, day = 15\<rparr> = 2"
    "adjust_for_weekend \<lparr>year = 2024, month = 5, day = 15\<rparr>
       = Inr \<lparr>year = 2024, month = 5, day = 15\<rparr>"
    by (simp_all add: date_eval)
  from t g have e: "[\<lparr>c_name = ''Ann'', congratulation_date = ''13.05.2024''\<rparr>,
            \<lparr>c_name = ''Bea'', congratulation_date = ''15.05.2024''\<rparr>,
            \<lparr>c_name = ''Eve'', congratulation_date = ''20.05.2024''\<rparr>]
     = map (spec_entry \<lparr>year = 2024, month = 5, day = 11\<rparr>)
         (filter (spec_in_window \<lparr>year = 2024, month = 5, day = 11\<rparr>)
           (dict_values
       [(''Ann'', \<lparr>name = ''Ann'', phones = [],
           birthday = Some (Birthday_obj ''12.05.1990'' \<lparr>year = 1990, month = 5, day = 12\<rparr>)\<rparr>),
        (''Bea'', \<lparr>name = ''Bea'', phones = [],
           birthday = Some (Birthday_obj ''15.05.1985'' \<lparr>year = 1985, month = 5, day = 15\<rparr>)\<rparr>),
        (''Eve'', \<lparr>name = ''Eve'', phones = [],
           birthday = Some (Birthday_obj ''18.05.1990'' \<lparr>year = 1990, month = 5, day = 18\<rparr>)\<rparr>)]))"
    by (elim conjE allE [where x = "[\<lparr>c_name = ''Ann'', congratulation_date = ''13.05.2024''\<rparr>,
            \<lparr>c_name = ''Bea'', congratulation_date = ''15.05.2024''\<rparr>,
            \<lparr>c_name = ''Eve'', congratulation_date = ''20.05.2024''\<rparr>]"]) simp
  show ?thesis
    by (intro conjI) (fact g e v w a m d s k)+
qed


lemma leap_next: "is_leap y \<Longrightarrow> \<not> is_leap (y + 1)"
proof -
  assume "is_leap y"
  then have "y mod 4 = 0" by (simp add: is_leap_def)
  then have "(y + 1) mod 4 = 1" by presburger
  then show ?thesis by (simp add: is_leap_def)
qed

lemma leap_day_raises:
  assumes "month bd = 2" "day bd = 29"
    "\<not> is_leap (year today) \<or> date_less \<lparr>year = year today, month = 2, day = 29\<rparr> today"
  shows "\<exists>m. next_birthday today bd = Inl (ValueError m)"
proof (cases "is_leap (year today)")
  case False
  then show ?thesis using assms(1,2)
    by (simp add: next_birthday_def replace_year_def date_new_def days_in_month_def
          DAYS_IN_MONTH_def)
next
  case True
  with assms(3) have l: "date_less \<lparr>year = year today, month = 2, day = 29\<rparr> today" by simp
  have n: "\<not> is_leap (year today + 1)" using True by (rule leap_next)
  show ?thesis using assms(1,2) l n True
    by (simp add: next_birthday_def replace_year_def date_new_def days_in_month_def
          DAYS_IN_MONTH_def)
qed

text \<open>
  Claim C9. If some record of the book has its birthday on 29 February, and the
  year of today is not a leap year, or today is after 29 February (so that the
  target year is the next one, which is not a leap year), then the query raises
  \<^verbatim>\<open>ValueError\<close> and returns no list.
\<close>

theorem leap_day_birthday_raises:
  assumes "r \<in> set (dict_values book)" "birthday r = Some b"
    "month (birthday_date b) = 2" "day (birthday_date b) = 29"
    "\<not> is_leap (year (dt_date now)) \<or>
     date_less \<lparr>year = year (dt_date now), month = 2, day = 29\<rparr> (dt_date now)"
  shows "\<exists>m. get_upcoming_birthdays now book = Inl (ValueError m)"
proof -
  from leap_day_raises [OF assms(3-5)] assms(2) have "raises (dt_date now) r"
    by (auto simp: raises_def)
  with assms(1) have "list_ex (raises (dt_date now)) (dict_values book)"
    by (auto simp: list_ex_iff)
  then show ?thesis by (rule gub_raise)
qed

theorem leap_day_birthday_raises_witness:
  "get_upcoming_birthdays \<lparr>dt_date = \<lparr>year = 2025, month = 2, day = 27\<rparr>, dt_time = 0\<rparr>
       [(''Bob'', \<lparr>name = ''Bob'', phones = [],
           birthday = Some (Birthday_obj ''29.02.2000'' \<lparr>year = 2000, month = 2, day = 29\<rparr>)\<rparr>)]
     = Inl (ValueError ''day is out of range for month'')
   \<and> \<not> is_leap 2025
   \<and> get_upcoming_birthdays \<lparr>dt_date = \<lparr>year = 2024, month = 3, day = 1\<rparr>, dt_time = 0\<rparr>
       [(''Bob'', \<lparr>name = ''Bob'', phones = [],
           birthday = Some (Birthday_obj ''29.02.2000'' \<lparr>year = 2000, month = 2, day = 29\<rparr>)\<rparr>)]
     = Inl (ValueError ''day is out of range for month'')
   \<and> is_leap 2024
   \<and> get_upcoming_birthdays \<lparr>dt_date = \<lparr>year = 2024, month = 2, day = 25\<rparr>, dt_time = 0\<rparr>
       [(''Bob'', \<lparr>name = ''Bob'', phones = [],
           birthday = Some (Birthday_obj ''29.02.2000'' \<lparr>year = 2000, month = 2, day = 29\<rparr>)\<rparr>)]
     = Inr [\<lparr>c_name = ''Bob'', congratulation_date = ''29.02.2024''\<rparr>]"
  using
    leap_day_birthday_raises
      [of "\<lparr>name = ''Bob'', phones = [],
           birthday = Some (Birthday_obj ''29.02.2000'' \<lparr>year = 2000, month = 2, day = 29\<rparr>)\<rparr>"
          "[(''Bob'', \<lparr>name = ''Bob'', phones = [],
           birthday = Some (Birthday_obj ''29.02.2000'' \<lparr>year = 2000, month = 2, day = 29\<rparr>)\<rparr>)]"
          "Birthday_obj ''29.02.2000'' \<lparr>year = 2000, month = 2, day = 29\<rparr>"
          "\<lparr>dt_date = \<lparr>year = 2025, month = 2, day = 27\<rparr>, dt_time = 0\<rparr>"]
    leap_day_birthday_raises
      [of "\<lparr>name = ''Bob'', phones = [],
           birthday = Some (Birthday_obj ''29.02.2000'' \<lparr>year = 2000, month = 2, day = 29\<rparr>)\<rparr>"
          "[(''Bob'', \<lparr>name = ''Bob'', phones = [],
           birthday = Some (Birthday_obj ''29.02.2000'' \<lparr>year = 2000, month = 2, day = 29\<rparr>)\<rparr>)]"
          "Birthday_obj ''29.02.2000'' \<lparr>year = 2000, month = 2, day = 29\<rparr>"
          "\<lparr>dt_date = \<lparr>year = 2024, month = 3, day = 1\<rparr>, dt_time = 0\<rparr>"]
  by (simp add: date_eval)

lemma upcoming_loop_cong:
  "map (\<lambda>r. (name r, birthday r)) rs1 = map (\<lambda>r. (name r, birthday r)) rs2 \<Longrightarrow>
   upcoming_loop today rs1 acc = upcoming_loop today rs2 acc"
proof (induction rs1 arbitrary: rs2 acc)
  case Nil
  then show ?case by simp
next
  case (Cons r rs1)
  then obtain r' rs2' where rs2: "rs2 = r' # rs2'" by (cases rs2) auto
  with Cons.prems have h: "name r = name r'" "birthday r = birthday r'"
    and t: "map (\<lambda>r. (name r, birthday r)) rs1 = map (\<lambda>r. (name r, birthday r)) rs2'"
    by simp_all
  note IH = Cons.IH [OF t]
  show ?case unfolding rs2 using h
    by (simp add: IH split: option.splits sum.splits)
qed

text \<open>
  Claim C3, as amended. \<^verbatim>\<open>get_upcoming_birthdays\<close> has no parameter for the
  reference date: it reads the clock. It changes nothing (it returns a result and
  no book), and its result is determined by the date the clock shows and by the
  names and birthdays of the records of the book, in their order: two calls made on
  the same date, at whatever time of the day, on books that agree on these, return
  the same result.
\<close>

theorem query_reads_clock_date_only:
  assumes "dt_date now1 = dt_date now2"
    "map (\<lambda>r. (name r, birthday r)) (dict_values book1) =
     map (\<lambda>r. (name r, birthday r)) (dict_values book2)"
  shows "get_upcoming_birthdays now1 book1 = get_upcoming_birthdays now2 book2"
  using assms upcoming_loop_cong [OF assms(2), of "dt_date now2" "[]"]
  by (simp add: get_upcoming_birthdays_def)

theorem query_reads_clock_date_only_witness:
  "dt_date \<lparr>dt_date = \<lparr>year = 2024, month = 5, day = 10\<rparr>, dt_time = 0\<rparr>
     = dt_date \<lparr>dt_date = \<lparr>year = 2024, month = 5, day = 10\<rparr>, dt_time = 43200000000\<rparr>
   \<and> get_upcoming_birthdays \<lparr>dt_date = \<lparr>year = 2024, month = 5, day = 10\<rparr>, dt_time = 0\<rparr>
       [(''Ann'', \<lparr>name = ''Ann'', phones = [],
           birthday = Some (Birthday_obj ''12.05.1990'' \<lparr>year = 1990, month = 5, day = 12\<rparr>)\<rparr>)]
     = get_upcoming_birthdays
       \<lparr>dt_date = \<lparr>year = 2024, month = 5, day = 10\<rparr>, dt_time = 43200000000\<rparr>
       [(''Ann'', \<lparr>name = ''Ann'', phones = [Phone_obj ''1234567890''],
           birthday = Some (Birthday_obj ''12.05.1990'' \<lparr>year = 1990, month = 5, day = 12\<rparr>)\<rparr>)]
   \<and> get_upcoming_birthdays \<lparr>dt_date = \<lparr>year = 2024, month = 5, day = 10\<rparr>, dt_time = 0\<rparr>
       [(''Ann'', \<lparr>name = ''Ann'', phones = [],
           birthday = Some (Birthday_obj ''12.05.1990'' \<lparr>year = 1990, month = 5, day = 12\<rparr>)\<rparr>)]
     = Inr [\<lparr>c_name = ''Ann'', congratulation_date = ''13.05.2024''\<rparr>]"
proof -
  have g: "get_upcoming_birthdays \<lparr>dt_date = \<lparr>year = 2024, month = 5, day = 10\<rparr>, dt_time = 0\<rparr>
       [(''Ann'', \<lparr>name = ''Ann'', phones = [],
           birthday = Some (Birthday_obj ''12.05.1990'' \<lparr>year = 1990, month = 5, day = 12\<rparr>)\<rparr>)]
     = Inr [\<lparr>c_name = ''Ann'', congratulation_date = ''13.05.2024''\<rparr>]"
    by (simp add: date_eval)
  have e: "get_upcoming_birthdays \<lparr>dt_date = \<lparr>year = 2024, month = 5, day = 10\<rparr>, dt_time = 0\<rparr>
       [(''Ann'', \<lparr>name = ''Ann'', phones = [],
           birthday = Some (Birthday_obj ''12.05.1990'' \<lparr>year = 1990, month = 5, day = 12\<rparr>)\<rparr>)]
     = get_upcoming_birthdays
       \<lparr>dt_date = \<lparr>year = 2024, month = 5, day = 10\<rparr>, dt_time = 43200000000\<rparr>
       [(''Ann'', \<lparr>name = ''Ann'', phones = [Phone_obj ''1234567890''],
           birthday = Some (Birthday_obj ''12.05.1990'' \<lparr>year = 1990, month = 5, day = 12\<rparr>)\<rparr>)]"
    by (rule query_reads_clock_date_only) (simp_all add: dict_values_def)
  show ?thesis using g e by simp
qed

text \<open>
  Claim C3 as stated fails: the date is not an input, and the result depends on the
  clock. The same book, asked on 10.05.2024 and on 10.06.2024, gives two results.
\<close>

theorem query_depends_on_clock_counterexample:
  "get_upcoming_birthdays \<lparr>dt_date = \<lparr>year = 2024, month = 5, day = 10\<rparr>, dt_time = 0\<rparr>
       [(''Ann'', \<lparr>name = ''Ann'', phones = [],
           birthday = Some (Birthday_obj ''12.05.1990'' \<lparr>year = 1990, month = 5, day = 12\<rparr>)\<rparr>)]
     = Inr [\<lparr>c_name = ''Ann'', congratulation_date = ''13.05.2024''\<rparr>]
   \<and> get_upcoming_birthdays \<lparr>dt_date = \<lparr>year = 2024, month = 6, day = 10\<rparr>, dt_time = 0\<rparr>
       [(''Ann'', \<lparr>name = ''Ann'', phones = [],
           birthday = Some (Birthday_obj ''12.05.1990'' \<lparr>year = 1990, month = 5, day = 12\<rparr>)\<rparr>)]
     = Inr []"
  by (simp add: date_eval)

section \<open>Parsing a birthday\<close>































end
